theory Spec2Isabelle
  imports Main "HOL-Library.Word"
begin

unbundle bit_operations_syntax

section \<open>C strings and the library routines the driver calls\<close>

text \<open>
  A C string is modelled by the list of its bytes before the terminating NUL. A routine
  that hands back a freshly filled buffer is read by its caller up to the first NUL, which
  \<open>cstr\<close> makes explicit. Memory allocation is assumed to succeed, so the
  \<open>out_of_memory\<close> exits of the source are not branches of the model.
\<close>

definition NUL :: char where
  "NUL = CHR 0x00"

definition cstr :: "string \<Rightarrow> string" where
  "cstr bs = takeWhile (\<lambda>c. c \<noteq> NUL) bs"

text \<open>\<open>tolower\<close> and \<open>strcasecmp\<close> of libc in the C locale.\<close>

definition c_tolower :: "char \<Rightarrow> char" where
  "c_tolower c = (let n = (of_char c :: nat) in if 65 \<le> n \<and> n \<le> 90 then char_of (n + 32) else c)"

fun strcasecmp :: "string \<Rightarrow> string \<Rightarrow> int" where
  "strcasecmp [] [] = 0"
| "strcasecmp [] (b # bs) = - int (of_char (c_tolower b))"
| "strcasecmp (a # as) [] = int (of_char (c_tolower a))"
| "strcasecmp (a # as) (b # bs) =
     (if c_tolower a = c_tolower b then strcasecmp as bs
      else int (of_char (c_tolower a)) - int (of_char (c_tolower b)))"

text \<open>
  \<open>strchr\<close>/\<open>xmlStrchr\<close> and \<open>xmlStrstr\<close> with a one-character needle: the offset of
  the first occurrence, \<open>None\<close> for the null pointer.
\<close>

fun xmlStrchr :: "string \<Rightarrow> char \<Rightarrow> nat option" where
  "xmlStrchr [] c = None"
| "xmlStrchr (x # xs) c =
     (if x = c then Some 0 else (case xmlStrchr xs c of None \<Rightarrow> None | Some i \<Rightarrow> Some (Suc i)))"

text \<open>
  \<open>atoi\<close> of libc: leading white space, an optional sign, then decimal digits. C leaves
  the overflowing case undefined; the model follows the GNU C library on a 64-bit
  platform, where \<open>atoi (s)\<close> is \<open>(int) strtol (s, NULL, 10)\<close>: \<open>strtol\<close> holds the value
  to the range of \<open>long\<close>, and the conversion to \<open>int\<close> keeps its low 32 bits.
\<close>

definition c_isspace :: "char \<Rightarrow> bool" where
  "c_isspace c = (let n = (of_char c :: nat) in n = 32 \<or> (9 \<le> n \<and> n \<le> 13))"

definition c_isdigit :: "char \<Rightarrow> bool" where
  "c_isdigit c = (let n = (of_char c :: nat) in 48 \<le> n \<and> n \<le> 57)"

fun atoi_digits :: "string \<Rightarrow> int \<Rightarrow> int" where
  "atoi_digits [] acc = acc"
| "atoi_digits (c # cs) acc =
     (if c_isdigit c then atoi_digits cs (acc * 10 + (int (of_char c) - 48)) else acc)"

definition strtol :: "string \<Rightarrow> int" where
  "strtol s =
     (let v = (case dropWhile c_isspace s of
                 [] \<Rightarrow> 0
               | c # cs \<Rightarrow>
                   if c = CHR ''-'' then - atoi_digits cs 0
                   else if c = CHR ''+'' then atoi_digits cs 0
                   else atoi_digits (c # cs) 0)
      in max (- (2 ^ 63)) (min (2 ^ 63 - 1) v))"

definition atoi :: "string \<Rightarrow> int" where
  "atoi s = signed_take_bit 31 (strtol s)"

subsection \<open>Percent-escaping (libxml2, \<open>uri.c\<close>)\<close>

text \<open>
  libxml2 is not part of the driver's sources. The two routines are modelled after their
  documented behaviour: \<open>xmlURIEscapeStr\<close> keeps \<open>@\<close>, the alphanumerics, the marks and
  the characters of its exception list, and writes every other byte as \<open>%XX\<close> with
  upper-case digits; \<open>xmlURIUnescapeString\<close> takes a length, where a length that is not
  positive means the whole string, and replaces each \<open>%XX\<close> by its byte.
\<close>

definition IS_ALPHANUM :: "char \<Rightarrow> bool" where
  "IS_ALPHANUM c =
     (let n = (of_char c :: nat)
      in (48 \<le> n \<and> n \<le> 57) \<or> (65 \<le> n \<and> n \<le> 90) \<or> (97 \<le> n \<and> n \<le> 122))"

definition IS_MARK :: "char \<Rightarrow> bool" where
  "IS_MARK c = (c \<in> set ''-_.!~*'' \<or> c = CHR 0x27 \<or> c \<in> set ''()'')"

definition IS_UNRESERVED :: "char \<Rightarrow> bool" where
  "IS_UNRESERVED c = (IS_ALPHANUM c \<or> IS_MARK c)"

definition hex_digit :: "nat \<Rightarrow> char" where
  "hex_digit v = (if v \<le> 9 then char_of (48 + v) else char_of (65 + (v - 10)))"

fun xmlURIEscapeStr :: "string \<Rightarrow> string \<Rightarrow> string" where
  "xmlURIEscapeStr [] list = []"
| "xmlURIEscapeStr (ch # rest) list =
     (if ch \<noteq> CHR ''@'' \<and> \<not> IS_UNRESERVED ch \<and> ch \<notin> set list
      then [CHR ''%'', hex_digit ((of_char ch :: nat) div 16), hex_digit ((of_char ch :: nat) mod 16)]
      else [ch]) @ xmlURIEscapeStr rest list"

definition is_hex :: "char \<Rightarrow> bool" where
  "is_hex c =
     (let n = (of_char c :: nat)
      in (48 \<le> n \<and> n \<le> 57) \<or> (97 \<le> n \<and> n \<le> 102) \<or> (65 \<le> n \<and> n \<le> 70))"

definition hex_value :: "char \<Rightarrow> nat" where
  "hex_value c =
     (let n = (of_char c :: nat)
      in if 48 \<le> n \<and> n \<le> 57 then n - 48
         else if 97 \<le> n \<and> n \<le> 102 then n - 97 + 10
         else n - 65 + 10)"

fun unescape_bytes :: "string \<Rightarrow> string" where
  "unescape_bytes (p # h # l # rest) =
     (if p = CHR ''%'' \<and> is_hex h \<and> is_hex l
      then char_of (hex_value h * 16 + hex_value l) # unescape_bytes rest
      else p # unescape_bytes (h # l # rest))"
| "unescape_bytes (c # rest) = c # unescape_bytes rest"
| "unescape_bytes [] = []"

definition xmlURIUnescapeString :: "string \<Rightarrow> int \<Rightarrow> string" where
  "xmlURIUnescapeString str len =
     (let len' = (if len \<le> 0 then int (length str) else len)
      in cstr (unescape_bytes (take (nat len') str)))"

section \<open>The query string: \<open>query_parse\<close> and \<open>query_create\<close>\<close>

record query_fields =
  name :: string
  "value" :: string
  ignore :: bool

text \<open>
  Both call sites pass a null separator, which selects \<open>&\<close> with \<open>sep_len = 1\<close>; the
  model fixes that choice. \<open>query_end\<close> is the offset of \<open>end\<close>, \<open>query_eq\<close> the offset
  of \<open>eq\<close> after the test \<open>eq >= end\<close>, \<open>query_section\<close> the field the loop body appends
  (none on the two \<open>goto next\<close> paths) and \<open>query_next\<close> the pointer after \<open>next:\<close>.
\<close>

definition query_end :: "string \<Rightarrow> nat" where
  "query_end query = (case xmlStrchr query (CHR ''&'') of None \<Rightarrow> length query | Some i \<Rightarrow> i)"

definition query_eq :: "string \<Rightarrow> nat option" where
  "query_eq query =
     (case xmlStrchr query (CHR ''='') of
        None \<Rightarrow> None
      | Some e \<Rightarrow> if e \<ge> query_end query then None else Some e)"

definition query_section :: "string \<Rightarrow> query_fields list" where
  "query_section query =
     (let end = query_end query in
      if end = 0 then []
      else case query_eq query of
        None \<Rightarrow>
          [\<lparr>name = xmlURIUnescapeString query (int end), value = [], ignore = False\<rparr>]
      | Some eq \<Rightarrow>
          if eq + 1 = end then
            [\<lparr>name = xmlURIUnescapeString query (int eq), value = [], ignore = False\<rparr>]
          else if eq = 0 then []
          else
            [\<lparr>name = xmlURIUnescapeString query (int eq),
              value = xmlURIUnescapeString (drop (eq + 1) query) (int end - (int eq + 1)),
              ignore = False\<rparr>])"

definition query_next :: "string \<Rightarrow> string" where
  "query_next query =
     (let rest = drop (query_end query) query
      in if rest \<noteq> [] then drop 1 rest else rest)"

lemma xmlStrchr_bound: "xmlStrchr s c = Some i \<Longrightarrow> i < length s"
  by (induction s arbitrary: i) (auto split: if_splits option.splits)

lemma query_end_le: "query_end q \<le> length q"
  by (auto simp: query_end_def dest: xmlStrchr_bound split: option.splits)

lemma query_next_shorter: "q \<noteq> [] \<Longrightarrow> length (query_next q) < length q"
  using query_end_le [of q] by (cases "query_end q = 0") (auto simp: query_next_def Let_def)

function query_parse_loop :: "string \<Rightarrow> query_fields list \<Rightarrow> query_fields list" where
  "query_parse_loop query flds =
     (if query = [] then flds
      else query_parse_loop (query_next query) (flds @ query_section query))"
  by pat_completeness auto

termination
  by (relation "measure (\<lambda>(q, fs). length q)") (auto simp: query_next_shorter)

declare query_parse_loop.simps [simp del]

definition query_parse :: "string option \<Rightarrow> query_fields list" where
  "query_parse q =
     (case q of
        None \<Rightarrow> []
      | Some query \<Rightarrow> if query = [] then [] else query_parse_loop query [])"

fun query_create_loop :: "query_fields list \<Rightarrow> bool \<Rightarrow> string \<Rightarrow> string" where
  "query_create_loop [] append_sep buf = buf"
| "query_create_loop (f # flds) append_sep buf =
     (if \<not> ignore f then
        query_create_loop flds True
          ((if append_sep then buf @ ''&'' else buf)
             @ xmlURIEscapeStr (name f) [] @ ''='' @ xmlURIEscapeStr (value f) [])
      else query_create_loop flds append_sep buf)"

definition query_create :: "query_fields list \<Rightarrow> string option" where
  "query_create flds = (if flds = [] then None else Some (query_create_loop flds False []))"


section \<open>Errors raised by the driver\<close>

datatype virErrorNumber =
    VIR_ERR_INVALID_ARG
  | VIR_ERR_NO_MEMORY
  | VIR_ERR_SYSTEM_ERROR
  | VIR_ERR_GNUTLS_ERROR
  | VIR_ERR_RPC

type_synonym remote_nonnull_domain = "string \<times> string \<times> int"
type_synonym remote_nonnull_network = "string \<times> string"

record remote_error =
  re_code :: int
  re_domain :: int
  re_message :: "string option"
  re_level :: int
  re_dom :: "remote_nonnull_domain option"
  re_str1 :: "string option"
  re_str2 :: "string option"
  re_str3 :: "string option"
  re_int1 :: int
  re_int2 :: int
  re_net :: "remote_nonnull_network option"

text \<open>
  What \<open>__virRaiseError\<close> is handed. \<open>Raised c code text params\<close>: \<open>c\<close> tells whether the
  error is raised against the connection (\<open>conn\<close>) or against no connection (\<open>NULL\<close>),
  \<open>text\<close> is the information string or the format, \<open>params\<close> the values printed by the
  format. \<open>ServerRaised\<close> is \<open>server_error\<close>: the record received from the server, passed
  on field by field. \<open>Aborted\<close> is a failed \<open>assert\<close>.
\<close>

datatype raised =
    Raised bool virErrorNumber string "32 word list"
  | ServerRaised bool remote_error
  | Aborted string

definition error :: "bool \<Rightarrow> virErrorNumber \<Rightarrow> string \<Rightarrow> raised" where
  "error conn code info = Raised conn code info []"

definition server_error :: "bool \<Rightarrow> remote_error \<Rightarrow> raised" where
  "server_error conn err = ServerRaised conn err"

section \<open>The byte channel\<close>

text \<open>
  The peer and the kernel are a script: \<open>rd_script\<close> lists what the coming calls of
  \<open>read\<close> (or \<open>gnutls_record_recv\<close>) meet, \<open>wr_script\<close> what the coming calls of \<open>write\<close>
  (or \<open>gnutls_record_send\<close>) meet. An exhausted read script is the end of the stream, an
  exhausted write script accepts everything. \<open>trace\<close> records every call made on the
  channel, in order.
\<close>

type_synonym byte = "8 word"

datatype rd_event = RdBytes "byte list" | RdInterrupted | RdError string

datatype wr_event = WrAccept nat | WrInterrupted | WrError string

datatype io_event =
    EvRead int "byte list"
  | EvReadFailed int
  | EvWrite "byte list"
  | EvWriteFailed "byte list"
  | EvBye nat
  | EvClose int
  | EvFree string

record world =
  rd_script :: "rd_event list"
  wr_script :: "wr_event list"
  trace :: "io_event list"

datatype 'a sysret = Done 'a | Interrupted | Failed string

definition log :: "io_event \<Rightarrow> world \<Rightarrow> world" where
  "log ev w = w\<lparr>trace := trace w @ [ev]\<rparr>"

definition sys_read :: "int \<Rightarrow> world \<Rightarrow> byte list sysret \<times> world" where
  "sys_read len w =
     (case rd_script w of
        [] \<Rightarrow> (Done [], log (EvRead len []) w)
      | RdInterrupted # evs \<Rightarrow> (Interrupted, log (EvReadFailed len) (w\<lparr>rd_script := evs\<rparr>))
      | RdError msg # evs \<Rightarrow> (Failed msg, log (EvReadFailed len) (w\<lparr>rd_script := evs\<rparr>))
      | RdBytes bs # evs \<Rightarrow>
          (let got = take (nat len) bs; left = drop (nat len) bs
           in (Done got,
               log (EvRead len got)
                 (w\<lparr>rd_script := (if left = [] then evs else RdBytes left # evs)\<rparr>))))"

definition sys_write :: "byte list \<Rightarrow> world \<Rightarrow> nat sysret \<times> world" where
  "sys_write bs w =
     (case wr_script w of
        [] \<Rightarrow> (Done (length bs), log (EvWrite bs) w)
      | WrInterrupted # evs \<Rightarrow> (Interrupted, log (EvWriteFailed bs) (w\<lparr>wr_script := evs\<rparr>))
      | WrError msg # evs \<Rightarrow> (Failed msg, log (EvWriteFailed bs) (w\<lparr>wr_script := evs\<rparr>))
      | WrAccept n # evs \<Rightarrow>
          (Done (min n (length bs)), log (EvWrite (take n bs)) (w\<lparr>wr_script := evs\<rparr>)))"

fun rd_event_size :: "rd_event \<Rightarrow> nat" where
  "rd_event_size (RdBytes bs) = Suc (length bs)"
| "rd_event_size RdInterrupted = 1"
| "rd_event_size (RdError msg) = 1"

definition rd_size :: "world \<Rightarrow> nat" where
  "rd_size w = sum_list (map rd_event_size (rd_script w))"

lemma sys_read_Interrupted_size:
  "(Interrupted, w') = sys_read len w \<Longrightarrow> rd_size w' < rd_size w"
  by (auto simp: sys_read_def rd_size_def log_def Let_def split: list.splits rd_event.splits)

lemma sys_read_Done_size:
  "(Done bs, w') = sys_read len w \<Longrightarrow> bs \<noteq> [] \<Longrightarrow> rd_size w' < rd_size w"
  by (auto simp: sys_read_def rd_size_def log_def Let_def
           split: list.splits rd_event.splits if_splits)

lemma sys_write_Interrupted_size:
  "(Interrupted, w') = sys_write bs w \<Longrightarrow> length (wr_script w') < length (wr_script w)"
  by (auto simp: sys_write_def log_def split: list.splits wr_event.splits)

lemma sys_write_Done_size:
  "(Done n, w') = sys_write bs w \<Longrightarrow> \<not> length bs \<le> n \<Longrightarrow>
   length (wr_script w') < length (wr_script w)"
  by (auto simp: sys_write_def log_def split: list.splits wr_event.splits)

section \<open>Per-connection private data\<close>

definition MAGIC :: int where
  "MAGIC = 999"

definition DEAD :: int where
  "DEAD = 998"

record private_data =
  magic :: int
  sock :: int
  uses_tls :: bool
  session :: "nat option"
  type :: "string option"
  counter :: "32 word"

section \<open>\<open>really_write\<close> and \<open>really_read\<close>\<close>

text \<open>
  Both loops are \<open>do ... while (len > 0)\<close>, and \<open>continue\<close> jumps to the test. The TLS and
  the plain branch differ in the call made and in the error code only.
\<close>

function really_write_loop ::
  "bool \<Rightarrow> bool \<Rightarrow> byte list \<Rightarrow> world \<Rightarrow> (raised + unit) \<times> world" where
  "really_write_loop tls in_open bs w =
     (case sys_write bs w of
        (Interrupted, w') \<Rightarrow>
          if bs \<noteq> [] then really_write_loop tls in_open bs w' else (Inr (), w')
      | (Failed msg, w') \<Rightarrow>
          (Inl (error (\<not> in_open)
                  (if tls then VIR_ERR_GNUTLS_ERROR else VIR_ERR_SYSTEM_ERROR) msg), w')
      | (Done n, w') \<Rightarrow>
          if drop n bs \<noteq> [] then really_write_loop tls in_open (drop n bs) w'
          else (Inr (), w'))"
  by pat_completeness auto
termination
  by (relation "measure (\<lambda>(tls, in_open, bs, w). length (wr_script w))")
     (auto intro: sys_write_Interrupted_size sys_write_Done_size)

declare really_write_loop.simps [simp del]

definition really_write ::
  "private_data \<Rightarrow> bool \<Rightarrow> byte list \<Rightarrow> world \<Rightarrow> (raised + unit) \<times> world" where
  "really_write priv in_open bytes w = really_write_loop (uses_tls priv) in_open bytes w"

function really_read_loop ::
  "bool \<Rightarrow> bool \<Rightarrow> int \<Rightarrow> byte list \<Rightarrow> world \<Rightarrow> (raised + byte list) \<times> world" where
  "really_read_loop tls in_open len got w =
     (case sys_read len w of
        (Interrupted, w') \<Rightarrow>
          if len > 0 then really_read_loop tls in_open len got w' else (Inr got, w')
      | (Failed msg, w') \<Rightarrow>
          (Inl (error (\<not> in_open)
                  (if tls then VIR_ERR_GNUTLS_ERROR else VIR_ERR_SYSTEM_ERROR) msg), w')
      | (Done bs, w') \<Rightarrow>
          if bs = [] then
            (Inl (error (\<not> in_open) VIR_ERR_RPC ''socket closed unexpectedly''), w')
          else if len - int (length bs) > 0 then
            really_read_loop tls in_open (len - int (length bs)) (got @ bs) w'
          else (Inr (got @ bs), w'))"
  by pat_completeness auto
termination
  by (relation "measure (\<lambda>(tls, in_open, len, got, w). rd_size w)")
     (auto intro: sys_read_Interrupted_size sys_read_Done_size)

declare really_read_loop.simps [simp del]

definition really_read ::
  "private_data \<Rightarrow> bool \<Rightarrow> int \<Rightarrow> world \<Rightarrow> (raised + byte list) \<times> world" where
  "really_read priv in_open len w = really_read_loop (uses_tls priv) in_open len [] w"


section \<open>Wire encoding\<close>

text \<open>
  \<open>xdr_int\<close> and \<open>xdr_u_int\<close> (RFC 4506): four bytes, most significant first. The signed
  and the unsigned routine move the same 32 bits; \<open>sint\<close> reads them as a C \<open>int\<close>.
  \<open>xdrmem_put\<close> is an append to a memory stream of \<open>sz\<close> bytes, which fails once the
  stream is full.
\<close>

definition xdr_u_int_enc :: "32 word \<Rightarrow> byte list" where
  "xdr_u_int_enc v = [ucast (drop_bit 24 v), ucast (drop_bit 16 v), ucast (drop_bit 8 v), ucast v]"

definition xdr_u_int_dec :: "byte list \<Rightarrow> (32 word \<times> byte list) option" where
  "xdr_u_int_dec bs =
     (case bs of
        a # b # c # d # rest \<Rightarrow>
          Some (push_bit 24 (ucast a) OR push_bit 16 (ucast b) OR push_bit 8 (ucast c) OR ucast d,
                rest)
      | _ \<Rightarrow> None)"

definition xdrmem_put :: "int \<Rightarrow> byte list \<Rightarrow> byte list \<Rightarrow> byte list option" where
  "xdrmem_put sz buf bs = (if int (length buf) + int (length bs) \<le> sz then Some (buf @ bs) else None)"

record remote_message_header =
  prog :: "32 word"
  vers :: "32 word"
  "proc" :: "32 word"
  direction :: "32 word"
  serial :: "32 word"
  status :: "32 word"

text \<open>
  Modelled from the spec: \<open>xdr_remote_message_header\<close>, generated from the protocol
  definition, which is not among the sources. The header is the six 32-bit fields
  program, version, procedure, direction, serial, status, in that order, 24 bytes.
\<close>

definition xdr_remote_message_header_enc :: "remote_message_header \<Rightarrow> byte list" where
  "xdr_remote_message_header_enc hdr =
     xdr_u_int_enc (prog hdr) @ xdr_u_int_enc (vers hdr) @ xdr_u_int_enc (proc hdr)
       @ xdr_u_int_enc (direction hdr) @ xdr_u_int_enc (serial hdr) @ xdr_u_int_enc (status hdr)"

definition xdr_remote_message_header_dec ::
  "byte list \<Rightarrow> (remote_message_header \<times> byte list) option" where
  "xdr_remote_message_header_dec bs =
     (case xdr_u_int_dec bs of None \<Rightarrow> None | Some (v1, bs1) \<Rightarrow>
     (case xdr_u_int_dec bs1 of None \<Rightarrow> None | Some (v2, bs2) \<Rightarrow>
     (case xdr_u_int_dec bs2 of None \<Rightarrow> None | Some (v3, bs3) \<Rightarrow>
     (case xdr_u_int_dec bs3 of None \<Rightarrow> None | Some (v4, bs4) \<Rightarrow>
     (case xdr_u_int_dec bs4 of None \<Rightarrow> None | Some (v5, bs5) \<Rightarrow>
     (case xdr_u_int_dec bs5 of None \<Rightarrow> None | Some (v6, bs6) \<Rightarrow>
        Some (\<lparr>prog = v1, vers = v2, proc = v3, direction = v4, serial = v5, status = v6\<rparr>,
              bs6)))))))"

definition xdr_void :: "byte list \<Rightarrow> unit option" where
  "xdr_void bs = Some ()"

section \<open>What the sources take from elsewhere\<close>

record xmlURI =
  scheme :: "string option"
  server :: "string option"
  user :: "string option"
  port :: int
  path :: "string option"
  query :: "string option"

text \<open>
  One connection attempt, as the \<open>switch (transport)\<close> of \<open>remoteOpen\<close> asks the system
  for it, and what the system answers: whether the switch was left connected, the socket
  and the TLS session it left in the private data, whether it set \<open>uses_tls\<close>, and the
  errors it raised on the way.
\<close>

datatype dial =
    DialTcp string "string option" bool int
  | DialUnix string
  | DialExec "string option" "string list option"

record dialled =
  d_connected :: bool
  d_sock :: int
  d_uses_tls :: bool
  d_session :: "nat option"
  d_raised :: "raised list"

text \<open>
  The constants, generated marshalling routines and library routines that the driver
  refers to and that are declared outside \<open>remote_internal.c\<close> are parameters of the
  model. A marshalling routine for arguments gives the encoded bytes, or \<open>None\<close> when
  it fails; one for results reads the bytes after the header.
\<close>

record env =
  REMOTE_PROGRAM :: "32 word"
  REMOTE_PROTOCOL_VERSION :: "32 word"
  REMOTE_MESSAGE_MAX :: int
  REMOTE_CALL :: "32 word"
  REMOTE_REPLY :: "32 word"
  REMOTE_OK :: "32 word"
  REMOTE_ERROR :: "32 word"
  REMOTE_PROC_OPEN :: "32 word"
  REMOTE_PROC_CLOSE :: "32 word"
  REMOTE_PROC_GET_TYPE :: "32 word"
  REMOTE_PROC_GET_VERSION :: "32 word"
  REMOTE_PROC_LIST_DOMAINS :: "32 word"
  REMOTE_PROC_NUM_OF_DOMAINS :: "32 word"
  REMOTE_DOMAIN_ID_LIST_MAX :: int
  xdr_remote_error :: "byte list \<Rightarrow> remote_error option"
  xdr_remote_open_args :: "string \<times> 32 word \<Rightarrow> byte list option"
  xdr_remote_get_type_ret :: "byte list \<Rightarrow> string option"
  xdr_remote_get_version_ret :: "byte list \<Rightarrow> int option"
  xdr_remote_list_domains_args :: "int \<Rightarrow> byte list option"
  xdr_remote_list_domains_ret :: "byte list \<Rightarrow> int list option"
  xdr_remote_num_of_domains_ret :: "byte list \<Rightarrow> int option"
  LIBVIRTD_TLS_PORT :: string
  LIBVIRTD_TCP_PORT :: string
  LIBVIRTD_UNIX_SOCKET :: string
  LIBVIRTD_UNIX_SOCKET_RO :: string
  VIR_CONNECT_RO :: "32 word"
  xmlSaveUri :: "xmlURI \<Rightarrow> string"
  connect_transport :: "dial \<Rightarrow> world \<Rightarrow> dialled \<times> world"

section \<open>The RPC engine: \<open>call\<close>\<close>

text \<open>
  \<open>call_reply\<close> is the part of \<open>call\<close> after the reply has been read: the header is
  decoded and compared with what was sent, then \<open>call_status\<close>, the \<open>switch\<close> on
  \<open>hdr.status\<close>, decides.
\<close>

definition call_status ::
  "env \<Rightarrow> bool \<Rightarrow> (byte list \<Rightarrow> 'r option) \<Rightarrow> remote_message_header \<Rightarrow> byte list \<Rightarrow> raised + 'r" where
  "call_status E in_open ret_filter hdr rest =
     (if status hdr = REMOTE_OK E then
        (case ret_filter rest of
           None \<Rightarrow> Inl (error (\<not> in_open) VIR_ERR_RPC ''unmarshalling ret'')
         | Some ret \<Rightarrow> Inr ret)
      else if status hdr = REMOTE_ERROR E then
        (case xdr_remote_error E rest of
           None \<Rightarrow> Inl (error (\<not> in_open) VIR_ERR_RPC ''unmarshalling remote_error'')
         | Some rerror \<Rightarrow> Inl (server_error (\<not> in_open) rerror))
      else
        Inl (Raised (\<not> in_open) VIR_ERR_RPC ''unknown status (received %x)'' [status hdr]))"

definition call_reply ::
  "env \<Rightarrow> bool \<Rightarrow> 32 word \<Rightarrow> 32 word \<Rightarrow> (byte list \<Rightarrow> 'r option) \<Rightarrow> byte list \<Rightarrow> raised + 'r" where
  "call_reply E in_open proc_nr this_serial ret_filter buffer =
     (case xdr_remote_message_header_dec buffer of
        None \<Rightarrow> Inl (error (\<not> in_open) VIR_ERR_RPC ''xdr_remote_message_header (reply)'')
      | Some (hdr, rest) \<Rightarrow>
          if prog hdr \<noteq> REMOTE_PROGRAM E then
            Inl (Raised (\<not> in_open) VIR_ERR_RPC ''unknown program (received %x, expected %x)''
                   [prog hdr, REMOTE_PROGRAM E])
          else if vers hdr \<noteq> REMOTE_PROTOCOL_VERSION E then
            Inl (Raised (\<not> in_open) VIR_ERR_RPC
                   ''unknown protocol version (received %x, expected %x)''
                   [vers hdr, REMOTE_PROTOCOL_VERSION E])
          else if proc hdr \<noteq> proc_nr then
            Inl (Raised (\<not> in_open) VIR_ERR_RPC ''unknown procedure (received %x, expected %x)''
                   [proc hdr, proc_nr])
          else if direction hdr \<noteq> REMOTE_REPLY E then
            Inl (Raised (\<not> in_open) VIR_ERR_RPC ''unknown direction (received %x, expected %x)''
                   [direction hdr, REMOTE_REPLY E])
          else if serial hdr \<noteq> this_serial then
            Inl (Raised (\<not> in_open) VIR_ERR_RPC ''unknown serial (received %x, expected %x)''
                   [serial hdr, this_serial])
          else call_status E in_open ret_filter hdr rest)"

text \<open>
  \<open>call\<close> returns the outcome, the private data (whose counter it has advanced) and the
  world. \<open>args\<close> is the encoding that \<open>args_filter\<close> produces for the arguments, \<open>None\<close>
  when the filter itself fails. \<open>int\<close> arithmetic is 32-bit two's complement. The function
  is modelled in three parts: \<open>call_serial\<close> is \<open>int serial = priv->counter++\<close>;
  \<open>call_send\<close> serialises header and arguments and writes the length word and the
  message; \<open>call_receive\<close> reads the length word, checks it, reads the reply and hands it
  to \<open>call_reply\<close>. Encoding the length word into the four bytes of \<open>buffer2\<close> cannot
  fail (one \<open>int\<close> always fits a stream of four bytes), so the source's branch
  \<open>xdr_int (length word)\<close> has no counterpart in \<open>call_send\<close>; decoding it from the four
  bytes that \<open>really_read\<close> delivered is kept as a branch of \<open>call_receive\<close>.
\<close>

definition call_serial :: "private_data \<Rightarrow> 32 word \<times> private_data" where
  "call_serial priv = (counter priv, priv\<lparr>counter := counter priv + 1\<rparr>)"

definition call_send ::
  "env \<Rightarrow> private_data \<Rightarrow> bool \<Rightarrow> remote_message_header \<Rightarrow> byte list option \<Rightarrow> world
   \<Rightarrow> (raised + unit) \<times> world" where
  "call_send E priv in_open hdr args w =
     (case xdrmem_put (REMOTE_MESSAGE_MAX E) [] (xdr_remote_message_header_enc hdr) of
        None \<Rightarrow> (Inl (error (\<not> in_open) VIR_ERR_RPC ''xdr_remote_message_header''), w)
      | Some buffer_hdr \<Rightarrow>
     (case (case args of None \<Rightarrow> None
            | Some a \<Rightarrow> xdrmem_put (REMOTE_MESSAGE_MAX E) buffer_hdr a) of
        None \<Rightarrow> (Inl (error (\<not> in_open) VIR_ERR_RPC ''marshalling args''), w)
      | Some buffer \<Rightarrow>
     (let len = (word_of_nat (length buffer) :: 32 word) + 4;
          buffer2 = xdr_u_int_enc len
      in
     (case really_write priv in_open buffer2 w of
        (Inl e, w1) \<Rightarrow> (Inl e, w1)
      | (Inr _, w1) \<Rightarrow> really_write priv in_open buffer w1))))"

definition call_receive ::
  "env \<Rightarrow> private_data \<Rightarrow> bool \<Rightarrow> 32 word \<Rightarrow> 32 word \<Rightarrow> (byte list \<Rightarrow> 'r option) \<Rightarrow> world
   \<Rightarrow> (raised + 'r) \<times> world" where
  "call_receive E priv in_open proc_nr this_serial ret_filter w =
     (case really_read priv in_open 4 w of
        (Inl e, w1) \<Rightarrow> (Inl e, w1)
      | (Inr buffer2, w1) \<Rightarrow>
     (case xdr_u_int_dec buffer2 of
        None \<Rightarrow> (Inl (error (\<not> in_open) VIR_ERR_RPC ''xdr_int (length word, reply)''), w1)
      | Some (rlen, _) \<Rightarrow>
     (let len = rlen - 4 in
      if sint len < 0 \<or> sint len > REMOTE_MESSAGE_MAX E then
        (Inl (error (\<not> in_open) VIR_ERR_RPC ''packet received from server too large''), w1)
      else
     (case really_read priv in_open (sint len) w1 of
        (Inl e, w2) \<Rightarrow> (Inl e, w2)
      | (Inr buffer, w2) \<Rightarrow>
          (call_reply E in_open proc_nr this_serial ret_filter buffer, w2)))))"

definition call ::
  "env \<Rightarrow> private_data \<Rightarrow> bool \<Rightarrow> 32 word \<Rightarrow> byte list option \<Rightarrow> (byte list \<Rightarrow> 'r option)
   \<Rightarrow> world \<Rightarrow> (raised + 'r) \<times> private_data \<times> world" where
  "call E priv0 in_open proc_nr args ret_filter w =
     (case call_serial priv0 of
        (this_serial, priv) \<Rightarrow>
     (let hdr = \<lparr>prog = REMOTE_PROGRAM E, vers = REMOTE_PROTOCOL_VERSION E, proc = proc_nr,
                 direction = REMOTE_CALL E, serial = this_serial, status = REMOTE_OK E\<rparr>
      in
     (case call_send E priv in_open hdr args w of
        (Inl e, w1) \<Rightarrow> (Inl e, priv, w1)
      | (Inr _, w1) \<Rightarrow>
          (case call_receive E priv in_open proc_nr this_serial ret_filter w1 of
             (r, w2) \<Rightarrow> (r, priv, w2)))))"

section \<open>Driver operations on a connection\<close>

text \<open>
  Of the connection object the driver reads the registered driver's name and the private
  data pointer. An operation either returns a value, or raises an error and returns its
  failure code, or stops at a failed assertion.
\<close>

record virConnect =
  driver :: "string option"
  privateData :: "private_data option"

datatype 'a outcome = Return 'a | Fail 'a raised | Abort string

definition GET_PRIVATE ::
  "virConnect \<Rightarrow> 'a \<Rightarrow> (private_data \<Rightarrow> world \<Rightarrow> 'a outcome \<times> private_data \<times> world)
   \<Rightarrow> world \<Rightarrow> 'a outcome \<times> virConnect \<times> world" where
  "GET_PRIVATE conn retcode body w =
     (case privateData conn of
        None \<Rightarrow> (Abort ''priv'', conn, w)
      | Some priv \<Rightarrow>
          if magic priv = DEAD then
            (Fail retcode
               (error True VIR_ERR_INVALID_ARG ''tried to use a closed or uninitialised handle''),
             conn, w)
          else if magic priv \<noteq> MAGIC then (Abort ''priv->magic == MAGIC'', conn, w)
          else
            (case body priv w of
               (r, priv', w') \<Rightarrow> (r, conn\<lparr>privateData := Some priv'\<rparr>, w')))"

definition gnutls_bye :: "nat \<Rightarrow> world \<Rightarrow> world" where
  "gnutls_bye s w = log (EvBye s) w"

definition close :: "int \<Rightarrow> world \<Rightarrow> world" where
  "close fd w = log (EvClose fd) w"

definition free :: "string \<Rightarrow> world \<Rightarrow> world" where
  "free p w = log (EvFree p) w"

definition remoteClose :: "env \<Rightarrow> virConnect \<Rightarrow> world \<Rightarrow> int outcome \<times> virConnect \<times> world" where
  "remoteClose E conn w =
     GET_PRIVATE conn (- 1)
       (\<lambda>priv w.
          case call E priv False (REMOTE_PROC_CLOSE E) (Some []) xdr_void w of
            (Inl e, priv, w) \<Rightarrow> (Fail (- 1) e, priv, w)
          | (Inr _, priv, w) \<Rightarrow>
              (let w = (case session priv of
                          Some s \<Rightarrow> if uses_tls priv then gnutls_bye s w else w
                        | None \<Rightarrow> w);
                   w = close (sock priv) w;
                   w = (case type priv of Some t \<Rightarrow> free t w | None \<Rightarrow> w)
               in (Return 0, priv, w))) w"

definition remoteType ::
  "env \<Rightarrow> virConnect \<Rightarrow> world \<Rightarrow> string option outcome \<times> virConnect \<times> world" where
  "remoteType E conn w =
     GET_PRIVATE conn None
       (\<lambda>priv w.
          case type priv of
            Some t \<Rightarrow> (Return (Some t), priv, w)
          | None \<Rightarrow>
              (case call E priv False (REMOTE_PROC_GET_TYPE E) (Some [])
                      (xdr_remote_get_type_ret E) w of
                 (Inl e, priv, w) \<Rightarrow> (Fail None e, priv, w)
               | (Inr ret, priv, w) \<Rightarrow> (Return (Some ret), priv\<lparr>type := Some ret\<rparr>, w))) w"

text \<open>
  \<open>remoteVersion\<close> returns its code together with what it stores through \<open>hvVer\<close>
  (\<open>has_hvVer\<close>: the pointer is not null).
\<close>

definition remoteVersion ::
  "env \<Rightarrow> virConnect \<Rightarrow> bool \<Rightarrow> world \<Rightarrow> (int \<times> int option) outcome \<times> virConnect \<times> world" where
  "remoteVersion E conn has_hvVer w =
     GET_PRIVATE conn (- 1, None)
       (\<lambda>priv w.
          case call E priv False (REMOTE_PROC_GET_VERSION E) (Some [])
                 (xdr_remote_get_version_ret E) w of
            (Inl e, priv, w) \<Rightarrow> (Fail (- 1, None) e, priv, w)
          | (Inr hv_ver, priv, w) \<Rightarrow>
              (Return (0, if has_hvVer then Some hv_ver else None), priv, w)) w"

text \<open>
  \<open>remoteListDomains\<close> returns the count together with the identifiers it copies to
  \<open>ids\<close>. \<open>ids_len\<close> is unsigned, so \<open>ret.ids.ids_len > maxids\<close> compares unsigned.
\<close>

definition remoteListDomains ::
  "env \<Rightarrow> virConnect \<Rightarrow> 32 word \<Rightarrow> world \<Rightarrow> (int \<times> int list) outcome \<times> virConnect \<times> world" where
  "remoteListDomains E conn maxids w =
     GET_PRIVATE conn (- 1, [])
       (\<lambda>priv w.
          if sint maxids > REMOTE_DOMAIN_ID_LIST_MAX E then
            (Fail (- 1, []) (error True VIR_ERR_RPC ''maxids > REMOTE_DOMAIN_ID_LIST_MAX''),
             priv, w)
          else
            case call E priv False (REMOTE_PROC_LIST_DOMAINS E)
                   (xdr_remote_list_domains_args E (sint maxids))
                   (xdr_remote_list_domains_ret E) w of
              (Inl e, priv, w) \<Rightarrow> (Fail (- 1, []) e, priv, w)
            | (Inr ids, priv, w) \<Rightarrow>
                if (word_of_nat (length ids) :: 32 word) > maxids then
                  (Fail (- 1, []) (error True VIR_ERR_RPC ''ret.ids.ids_len > maxids''), priv, w)
                else (Return (int (length ids), ids), priv, w)) w"

definition remoteNumOfDomains ::
  "env \<Rightarrow> virConnect \<Rightarrow> world \<Rightarrow> int outcome \<times> virConnect \<times> world" where
  "remoteNumOfDomains E conn w =
     GET_PRIVATE conn (- 1)
       (\<lambda>priv w.
          case call E priv False (REMOTE_PROC_NUM_OF_DOMAINS E) (Some [])
                 (xdr_remote_num_of_domains_ret E) w of
            (Inl e, priv, w) \<Rightarrow> (Fail (- 1) e, priv, w)
          | (Inr num, priv, w) \<Rightarrow> (Return num, priv, w)) w"

datatype open_ret = VIR_DRV_OPEN_SUCCESS | VIR_DRV_OPEN_DECLINED | VIR_DRV_OPEN_ERROR

definition remoteNetworkOpen :: "virConnect option \<Rightarrow> open_ret" where
  "remoteNetworkOpen conn =
     (case conn of
        None \<Rightarrow> VIR_DRV_OPEN_DECLINED
      | Some c \<Rightarrow>
          (case driver c of
             None \<Rightarrow> VIR_DRV_OPEN_DECLINED
           | Some nm \<Rightarrow> if nm = ''remote'' then VIR_DRV_OPEN_SUCCESS else VIR_DRV_OPEN_DECLINED))"

definition remoteNetworkClose ::
  "virConnect \<Rightarrow> world \<Rightarrow> int outcome \<times> virConnect \<times> world" where
  "remoteNetworkClose conn w = (Return 0, conn, w)"


section \<open>\<open>remoteOpen\<close>\<close>

datatype transport = trans_tls | trans_unix | trans_ssh | trans_ext | trans_tcp

definition get_transport_from_scheme :: "string \<Rightarrow> string option" where
  "get_transport_from_scheme sch =
     (case xmlStrchr sch (CHR ''+'') of None \<Rightarrow> None | Some p \<Rightarrow> Some (drop (p + 1) sch))"

definition select_transport :: "string option \<Rightarrow> raised + transport" where
  "select_transport transport_str =
     (case transport_str of
        None \<Rightarrow> Inr trans_tls
      | Some t \<Rightarrow>
          if strcasecmp t ''tls'' = 0 then Inr trans_tls
          else if strcasecmp t ''unix'' = 0 then Inr trans_unix
          else if strcasecmp t ''ssh'' = 0 then Inr trans_ssh
          else if strcasecmp t ''ext'' = 0 then Inr trans_ext
          else if strcasecmp t ''tcp'' = 0 then Inr trans_tcp
          else
            Inl (error False VIR_ERR_INVALID_ARG
                   ''remote_open: transport in URL not recognised (should be tls|unix|ssh|ext|tcp)''))"

text \<open>\<open>asprintf (&port, "%d", uri->port)\<close>: the decimal digits of an \<open>int\<close>.\<close>

function decimal :: "nat \<Rightarrow> string" where
  "decimal n = (if n < 10 then [char_of (48 + n)] else decimal (n div 10) @ [char_of (48 + n mod 10)])"
  by pat_completeness auto
termination
  by (relation "measure id") auto

declare decimal.simps [simp del]

definition asprintf_d :: "int \<Rightarrow> string" where
  "asprintf_d i = (if i < 0 then CHR ''-'' # decimal (nat (- i)) else decimal (nat i))"

text \<open>The variables that the loop over the query fields fills in.\<close>

record open_vars =
  o_name :: "string option"
  o_command :: "string option"
  o_sockname :: "string option"
  o_netcat :: "string option"
  o_no_verify :: int

definition extract_var :: "query_fields \<Rightarrow> open_vars \<Rightarrow> query_fields \<times> open_vars" where
  "extract_var var v =
     (if strcasecmp (name var) ''name'' = 0 then
        (var\<lparr>ignore := True\<rparr>, v\<lparr>o_name := Some (value var)\<rparr>)
      else if strcasecmp (name var) ''command'' = 0 then
        (var\<lparr>ignore := True\<rparr>, v\<lparr>o_command := Some (value var)\<rparr>)
      else if strcasecmp (name var) ''socket'' = 0 then
        (var\<lparr>ignore := True\<rparr>, v\<lparr>o_sockname := Some (value var)\<rparr>)
      else if strcasecmp (name var) ''netcat'' = 0 then
        (var\<lparr>ignore := True\<rparr>, v\<lparr>o_netcat := Some (value var)\<rparr>)
      else if strcasecmp (name var) ''no_verify'' = 0 then
        (var\<lparr>ignore := True\<rparr>, v\<lparr>o_no_verify := atoi (value var)\<rparr>)
      else (var, v))"

fun extract_vars :: "query_fields list \<Rightarrow> open_vars \<Rightarrow> query_fields list \<times> open_vars" where
  "extract_vars [] v = ([], v)"
| "extract_vars (var # vars) v =
     (case extract_var var v of
        (var', v') \<Rightarrow> (case extract_vars vars v' of (vars', v'') \<Rightarrow> (var' # vars', v'')))"

text \<open>
  The state of \<open>remoteOpen\<close> when it reaches \<open>switch (transport)\<close>: the transport, the
  server, port and user name, the name to open on the far side, and the reserved query
  variables.
\<close>

record prepared =
  p_transport :: transport
  p_server :: string
  p_port :: "string option"
  p_username :: "string option"
  p_name :: string
  p_vars :: open_vars

definition remoteOpen_prepare ::
  "env \<Rightarrow> xmlURI option \<Rightarrow> (open_ret \<times> raised list) + prepared" where
  "remoteOpen_prepare E uri_opt =
     (case uri_opt of
        None \<Rightarrow> Inl (VIR_DRV_OPEN_DECLINED, [])
      | Some uri \<Rightarrow>
     (case scheme uri of
        None \<Rightarrow> Inl (VIR_DRV_OPEN_DECLINED, [])
      | Some sch \<Rightarrow>
     (let transport_str = get_transport_from_scheme sch in
      if server uri = None \<and> transport_str = None then Inl (VIR_DRV_OPEN_DECLINED, [])
      else
     (case select_transport transport_str of
        Inl e \<Rightarrow> Inl (VIR_DRV_OPEN_ERROR, [e])
      | Inr tr \<Rightarrow>
     (let server' = (case server uri of Some s \<Rightarrow> s | None \<Rightarrow> ''localhost'');
          port' = (if port uri \<noteq> 0 then Some (asprintf_d (port uri))
                   else if tr = trans_tls then Some (LIBVIRTD_TLS_PORT E)
                   else if tr = trans_tcp then Some (LIBVIRTD_TCP_PORT E)
                   else if tr = trans_ssh then Some ''22''
                   else None);
          username = (if port uri = 0 \<and> tr = trans_ssh then user uri else None)
      in
     (case extract_vars (query_parse (query uri))
             \<lparr>o_name = None, o_command = None, o_sockname = None, o_netcat = None,
              o_no_verify = 0\<rparr> of
        (vars, v) \<Rightarrow>
     (let uri1 = uri\<lparr>query := query_create vars\<rparr> in
      if tr = trans_ext \<and> o_command v = None then
        Inl (VIR_DRV_OPEN_ERROR,
             [error False VIR_ERR_INVALID_ARG
                (''remote_open: for '' @ [CHR 0x27] @ ''ext'' @ [CHR 0x27]
                   @ '' transport, command is required'')])
      else
     (let name' =
            (case o_name v of
               Some n \<Rightarrow> n
             | None \<Rightarrow>
                 xmlSaveUri E
                   (uri1\<lparr>scheme :=
                           (case xmlStrchr sch (CHR ''+'') of
                              None \<Rightarrow> Some sch
                            | Some p \<Rightarrow> Some (take p sch)),
                         user := None, server := None, port := 0\<rparr>))
      in
        Inr \<lparr>p_transport = tr, p_server = server', p_port = port', p_username = username,
             p_name = name', p_vars = v\<rparr>))))))))"

text \<open>
  \<open>remoteOpen_dial\<close> is what \<open>switch (transport)\<close> asks for; the ssh case builds
  \<open>cmd_argv\<close> (without its terminating null pointer). \<open>None\<close> stands for the null
  pointer handed to \<open>strdup\<close> if the ssh case were reached without a port.
\<close>

definition remoteOpen_dial :: "env \<Rightarrow> prepared \<Rightarrow> 32 word \<Rightarrow> dial option" where
  "remoteOpen_dial E p flags =
     (case p_transport p of
        trans_tls \<Rightarrow> Some (DialTcp (p_server p) (p_port p) True (o_no_verify (p_vars p)))
      | trans_tcp \<Rightarrow> Some (DialTcp (p_server p) (p_port p) False (o_no_verify (p_vars p)))
      | trans_unix \<Rightarrow>
          Some (DialUnix
                  (case o_sockname (p_vars p) of
                     Some s \<Rightarrow> s
                   | None \<Rightarrow>
                       if flags AND VIR_CONNECT_RO E \<noteq> 0 then LIBVIRTD_UNIX_SOCKET_RO E
                       else LIBVIRTD_UNIX_SOCKET E))
      | trans_ssh \<Rightarrow>
          (let command = (case o_command (p_vars p) of Some c \<Rightarrow> c | None \<Rightarrow> ''ssh'') in
           case p_port p of
             None \<Rightarrow> None
           | Some port' \<Rightarrow>
               Some (DialExec (Some command)
                       (Some ([command, ''-p'', port']
                              @ (case p_username p of Some u \<Rightarrow> [''-l'', u] | None \<Rightarrow> [])
                              @ [p_server p,
                                 (case o_netcat (p_vars p) of Some n \<Rightarrow> n | None \<Rightarrow> ''nc''),
                                 ''-U'',
                                 (case o_sockname (p_vars p) of
                                    Some s \<Rightarrow> s
                                  | None \<Rightarrow> LIBVIRTD_UNIX_SOCKET E)]))))
      | trans_ext \<Rightarrow> Some (DialExec (o_command (p_vars p)) None))"

definition remoteOpen_failed :: "private_data \<Rightarrow> world \<Rightarrow> world" where
  "remoteOpen_failed priv w =
     (if sock priv \<ge> 0 then
        close (sock priv)
          (case session priv of
             Some s \<Rightarrow> if uses_tls priv then gnutls_bye s w else w
           | None \<Rightarrow> w)
      else w)"

definition initial_private_data :: private_data where
  "initial_private_data =
     \<lparr>magic = DEAD, sock = - 1, uses_tls = False, session = None, type = None, counter = 0\<rparr>"

definition remoteOpen ::
  "env \<Rightarrow> virConnect \<Rightarrow> xmlURI option \<Rightarrow> 32 word \<Rightarrow> world
   \<Rightarrow> (open_ret \<times> raised list) \<times> virConnect \<times> world" where
  "remoteOpen E conn uri_opt flags w =
     (case remoteOpen_prepare E uri_opt of
        Inl r \<Rightarrow> (r, conn, w)
      | Inr p \<Rightarrow>
     (case remoteOpen_dial E p flags of
        None \<Rightarrow> ((VIR_DRV_OPEN_ERROR, [Aborted ''strdup (port)'']), conn, w)
      | Some d \<Rightarrow>
     (case connect_transport E d w of
        (dl, w1) \<Rightarrow>
     (let priv = initial_private_data
                   \<lparr>sock := d_sock dl, uses_tls := d_uses_tls dl, session := d_session dl\<rparr>
      in
      if \<not> d_connected dl then
        ((VIR_DRV_OPEN_ERROR, d_raised dl), conn, remoteOpen_failed priv w1)
      else
     (case call E priv True (REMOTE_PROC_OPEN E) (xdr_remote_open_args E (p_name p, flags))
             xdr_void w1 of
        (Inl e, priv1, w2) \<Rightarrow>
          ((VIR_DRV_OPEN_ERROR, d_raised dl @ [e]), conn, remoteOpen_failed priv1 w2)
      | (Inr _, priv1, w2) \<Rightarrow>
          ((VIR_DRV_OPEN_SUCCESS, d_raised dl),
           conn\<lparr>privateData := Some (priv1\<lparr>magic := MAGIC\<rparr>)\<rparr>, w2))))))"


section \<open>A concrete environment\<close>

text \<open>
  The values of the protocol definition and of the build configuration, with marshalling
  routines reduced to what the examples below exercise, a URI printer for URIs without
  authority, and a system on which every connection attempt succeeds on descriptor 3.
\<close>

definition example_xmlSaveUri :: "xmlURI \<Rightarrow> string" where
  "example_xmlSaveUri uri =
     (case scheme uri of Some s \<Rightarrow> s @ '':'' | None \<Rightarrow> [])
       @ (case server uri of Some h \<Rightarrow> ''//'' @ h | None \<Rightarrow> ''//'')
       @ (case path uri of Some p \<Rightarrow> p | None \<Rightarrow> [])
       @ (case query uri of Some q \<Rightarrow> ''?'' @ q | None \<Rightarrow> [])"

definition example_connect :: "dial \<Rightarrow> world \<Rightarrow> dialled \<times> world" where
  "example_connect d w =
     (\<lparr>d_connected = True, d_sock = 3,
       d_uses_tls = (case d of DialTcp h p tls nv \<Rightarrow> tls | _ \<Rightarrow> False),
       d_session = (case d of DialTcp h p tls nv \<Rightarrow> if tls then Some 0 else None | _ \<Rightarrow> None),
       d_raised = []\<rparr>, w)"

definition example_env :: env where
  "example_env =
     \<lparr>REMOTE_PROGRAM = 0x20008086,
      REMOTE_PROTOCOL_VERSION = 1,
      REMOTE_MESSAGE_MAX = 262144,
      REMOTE_CALL = 0,
      REMOTE_REPLY = 1,
      REMOTE_OK = 0,
      REMOTE_ERROR = 1,
      REMOTE_PROC_OPEN = 1,
      REMOTE_PROC_CLOSE = 2,
      REMOTE_PROC_GET_TYPE = 3,
      REMOTE_PROC_GET_VERSION = 4,
      REMOTE_PROC_LIST_DOMAINS = 37,
      REMOTE_PROC_NUM_OF_DOMAINS = 51,
      REMOTE_DOMAIN_ID_LIST_MAX = 16384,
      xdr_remote_error = (\<lambda>bs. None),
      xdr_remote_open_args = (\<lambda>(nm, flags). Some (xdr_u_int_enc flags)),
      xdr_remote_get_type_ret = (\<lambda>bs. Some (map (\<lambda>b. char_of (unat b)) bs)),
      xdr_remote_get_version_ret =
        (\<lambda>bs. case xdr_u_int_dec bs of None \<Rightarrow> None | Some (v, rest) \<Rightarrow> Some (sint v)),
      xdr_remote_list_domains_args = (\<lambda>maxids. Some (xdr_u_int_enc (word_of_int maxids))),
      xdr_remote_list_domains_ret = (\<lambda>bs. Some (map sint bs)),
      xdr_remote_num_of_domains_ret =
        (\<lambda>bs. case xdr_u_int_dec bs of None \<Rightarrow> None | Some (v, rest) \<Rightarrow> Some (sint v)),
      LIBVIRTD_TLS_PORT = ''16514'',
      LIBVIRTD_TCP_PORT = ''16509'',
      LIBVIRTD_UNIX_SOCKET = ''/var/run/libvirt/libvirt-sock'',
      LIBVIRTD_UNIX_SOCKET_RO = ''/var/run/libvirt/libvirt-sock-ro'',
      VIR_CONNECT_RO = 1,
      xmlSaveUri = example_xmlSaveUri,
      connect_transport = example_connect\<rparr>"

definition open_connection :: "private_data \<Rightarrow> virConnect" where
  "open_connection priv = \<lparr>driver = Some ''remote'', privateData = Some priv\<rparr>"

definition example_priv :: private_data where
  "example_priv =
     \<lparr>magic = MAGIC, sock = 3, uses_tls = False, session = None, type = None, counter = 1\<rparr>"

definition reply_frame :: "32 word \<Rightarrow> 32 word \<Rightarrow> 32 word \<Rightarrow> byte list \<Rightarrow> byte list" where
  "reply_frame proc_nr ser st body =
     xdr_u_int_enc (word_of_nat (length body) + 28)
       @ xdr_remote_message_header_enc
           \<lparr>prog = 0x20008086, vers = 1, proc = proc_nr, direction = 1, serial = ser,
            status = st\<rparr>
       @ body"

definition peer :: "rd_event list \<Rightarrow> world" where
  "peer evs = \<lparr>rd_script = evs, wr_script = [], trace = []\<rparr>"

section \<open>Notions of the specification\<close>

text \<open>
  The specification speaks of the sections of a query string (its pieces between \<open>&\<close>),
  of percent-decoding, and of the field a section stands for: none for an empty section
  or one that starts with \<open>=\<close>, otherwise the decoded text before the first \<open>=\<close> as
  name and the decoded text after it as value (empty when there is no \<open>=\<close> or nothing
  follows it). These definitions follow the specification's words; the theorems below
  compare the code with them.
\<close>

definition unesc :: "string \<Rightarrow> string" where
  "unesc s = cstr (unescape_bytes s)"

definition section_field :: "string \<Rightarrow> query_fields list" where
  "section_field sec =
     (if sec = [] \<or> hd sec = CHR ''='' then []
      else [\<lparr>name = unesc (takeWhile (\<lambda>c. c \<noteq> CHR ''='') sec),
             value = unesc (drop 1 (dropWhile (\<lambda>c. c \<noteq> CHR ''='') sec)),
             ignore = False\<rparr>])"

fun sections :: "string \<Rightarrow> string list" where
  "sections [] = [[]]"
| "sections (c # cs) =
     (if c = CHR ''&'' then [] # sections cs
      else (case sections cs of s # ss \<Rightarrow> (c # s) # ss | [] \<Rightarrow> [[c]]))"

text \<open>
  The serial number of a call is read off the wire: \<open>sent_bytes\<close> are the bytes of the
  write events that a step added to the trace, and \<open>request_serial\<close> decodes from them the
  length word and the request header and gives the header's serial field, or \<open>None\<close> when
  no complete header went out. \<open>marshalled\<close> says that the arguments were encoded and fit
  the message buffer behind the header.
\<close>

fun written :: "io_event \<Rightarrow> byte list" where
  "written (EvWrite bs) = bs"
| "written (EvWriteFailed bs) = []"
| "written (EvRead len bs) = []"
| "written (EvReadFailed len) = []"
| "written (EvBye s) = []"
| "written (EvClose fd) = []"
| "written (EvFree p) = []"

definition sent_bytes :: "world \<Rightarrow> world \<Rightarrow> byte list" where
  "sent_bytes w w' = concat (map written (drop (length (trace w)) (trace w')))"

definition request_serial :: "byte list \<Rightarrow> 32 word option" where
  "request_serial bs =
     (case xdr_u_int_dec bs of
        None \<Rightarrow> None
      | Some (len, msg) \<Rightarrow>
          (case xdr_remote_message_header_dec msg of
             None \<Rightarrow> None
           | Some (hdr, args) \<Rightarrow> Some (serial hdr)))"

definition marshalled :: "env \<Rightarrow> byte list option \<Rightarrow> bool" where
  "marshalled E args =
     (case args of None \<Rightarrow> False | Some a \<Rightarrow> 24 + int (length a) \<le> REMOTE_MESSAGE_MAX E)"

text \<open>
  A sequence of calls on one connection: each request is made on the private data and in
  the world the previous one left. \<open>calls\<close> returns the serial numbers that went out,
  in order.
\<close>

fun calls ::
  "env \<Rightarrow> private_data \<Rightarrow> (bool \<times> 32 word \<times> byte list option \<times> (byte list \<Rightarrow> 'r option)) list
   \<Rightarrow> world \<Rightarrow> 32 word option list \<times> private_data \<times> world" where
  "calls E priv [] w = ([], priv, w)"
| "calls E priv ((in_open, proc_nr, args, ret_filter) # reqs) w =
     (case call E priv in_open proc_nr args ret_filter w of
        (r, priv', w') \<Rightarrow>
          (case calls E priv' reqs w' of
             (sers, priv'', w'') \<Rightarrow> (request_serial (sent_bytes w w') # sers, priv'', w'')))"

text \<open>
  The driver operations modelled above, as one type, with the error an invocation
  raises (if any), and sequences of invocations on one connection.
\<close>

datatype driver_op =
    OpClose
  | OpType
  | OpVersion bool
  | OpListDomains "32 word"
  | OpNumOfDomains
  | OpNetworkClose

fun failure :: "'a outcome \<Rightarrow> raised option" where
  "failure (Return v) = None"
| "failure (Fail v e) = Some e"
| "failure (Abort a) = Some (Aborted a)"

fun run_op :: "env \<Rightarrow> driver_op \<Rightarrow> virConnect \<Rightarrow> world \<Rightarrow> raised option \<times> virConnect \<times> world" where
  "run_op E OpClose conn w = (case remoteClose E conn w of (r, c, w') \<Rightarrow> (failure r, c, w'))"
| "run_op E OpType conn w = (case remoteType E conn w of (r, c, w') \<Rightarrow> (failure r, c, w'))"
| "run_op E (OpVersion has_hvVer) conn w =
     (case remoteVersion E conn has_hvVer w of (r, c, w') \<Rightarrow> (failure r, c, w'))"
| "run_op E (OpListDomains maxids) conn w =
     (case remoteListDomains E conn maxids w of (r, c, w') \<Rightarrow> (failure r, c, w'))"
| "run_op E OpNumOfDomains conn w =
     (case remoteNumOfDomains E conn w of (r, c, w') \<Rightarrow> (failure r, c, w'))"
| "run_op E OpNetworkClose conn w =
     (case remoteNetworkClose conn w of (r, c, w') \<Rightarrow> (failure r, c, w'))"

fun run_ops :: "env \<Rightarrow> driver_op list \<Rightarrow> virConnect \<Rightarrow> world \<Rightarrow> virConnect \<times> world" where
  "run_ops E [] conn w = (conn, w)"
| "run_ops E (op # ops) conn w =
     (case run_op E op conn w of (r, conn', w') \<Rightarrow> run_ops E ops conn' w')"

text \<open>Lower-casing a string, and the reserved query keys of the specification.\<close>

definition lowercase :: "string \<Rightarrow> string" where
  "lowercase s = map c_tolower s"

definition reserved_key :: "string \<Rightarrow> bool" where
  "reserved_key n =
     (lowercase n \<in> {''name'', ''command'', ''socket'', ''netcat'', ''no_verify''})"

text \<open>
  The text that \<open>query_create\<close> writes for one field, and strings joined by \<open>&\<close>.
\<close>

definition field_text :: "query_fields \<Rightarrow> string" where
  "field_text f = xmlURIEscapeStr (name f) [] @ ''='' @ xmlURIEscapeStr (value f) []"

fun join_amp :: "string list \<Rightarrow> string" where
  "join_amp [] = []"
| "join_amp [s] = s"
| "join_amp (s # t # ss) = s @ CHR ''&'' # join_amp (t # ss)"

text \<open>
  What the loop of \<open>query_parse\<close> makes of a list of sections: the field of each section
  as above, except that a section which is exactly \<open>=\<close> gives a field whose name is the
  decoded text of the whole remaining query string, from that section to the end, with
  the empty value.
\<close>

fun section_fields :: "string list \<Rightarrow> query_fields list" where
  "section_fields [] = []"
| "section_fields (sec # secs) =
     (if sec = ''=''
      then [\<lparr>name = unesc (join_amp (sec # secs)), value = [], ignore = False\<rparr>]
      else section_field sec) @ section_fields secs"

section \<open>Properties of \<open>query_parse\<close>\<close>

lemma xmlStrchr_takeWhile:
  "xmlStrchr s c = (if c \<in> set s then Some (length (takeWhile (\<lambda>x. x \<noteq> c) s)) else None)"
  by (induction s) auto

lemma sections_nonempty: "sections q \<noteq> []"
  by (induction q) (auto split: list.splits)

lemma sections_append:
  "CHR ''&'' \<notin> set sec \<Longrightarrow> sections (sec @ CHR ''&'' # r) = sec # sections r"
  by (induction sec) (auto split: list.splits)

lemma sections_single: "CHR ''&'' \<notin> set sec \<Longrightarrow> sections sec = [sec]"
  by (induction sec) (auto split: list.splits)

lemma takeWhile_notin: "c \<notin> set s \<Longrightarrow> takeWhile (\<lambda>x. x \<noteq> c) s = s"
  by (induction s) auto

lemma dropWhile_notin: "c \<notin> set s \<Longrightarrow> dropWhile (\<lambda>x. x \<noteq> c) s = []"
  by (induction s) auto

lemma query_end_takeWhile: "query_end q = length (takeWhile (\<lambda>c. c \<noteq> CHR ''&'') q)"
  by (simp add: query_end_def xmlStrchr_takeWhile takeWhile_notin)

lemma query_end_append:
  "CHR ''&'' \<notin> set sec \<Longrightarrow> rest = [] \<or> hd rest = CHR ''&'' \<Longrightarrow> query_end (sec @ rest) = length sec"
  by (cases rest) (auto simp: query_end_takeWhile takeWhile_append takeWhile_notin)

lemma takeWhile_eq_len_less:
  "c \<in> set sec \<Longrightarrow> length (takeWhile (\<lambda>x. x \<noteq> c) (sec @ rest)) = length (takeWhile (\<lambda>x. x \<noteq> c) sec)"
  by (induction sec) auto

lemma takeWhile_len_ge:
  "c \<notin> set sec \<Longrightarrow> length (takeWhile (\<lambda>x. x \<noteq> c) (sec @ rest)) \<ge> length sec"
  by (induction sec) auto

lemma takeWhile_len_lt: "c \<in> set sec \<Longrightarrow> length (takeWhile (\<lambda>x. x \<noteq> c) sec) < length sec"
  by (induction sec) auto

lemma query_eq_append:
  assumes "CHR ''&'' \<notin> set sec" "rest = [] \<or> hd rest = CHR ''&''"
  shows "query_eq (sec @ rest) =
           (if CHR ''='' \<in> set sec then Some (length (takeWhile (\<lambda>c. c \<noteq> CHR ''='') sec)) else None)"
proof (cases "CHR ''='' \<in> set sec")
  case True
  then show ?thesis
    using assms takeWhile_len_lt [of "CHR ''=''" sec]
    by (simp add: query_eq_def xmlStrchr_takeWhile query_end_append takeWhile_eq_len_less)
next
  case False
  then show ?thesis
    using assms takeWhile_len_ge [of "CHR ''=''" sec rest]
    by (simp add: query_eq_def xmlStrchr_takeWhile query_end_append)
qed

lemma xmlURIUnescapeString_take:
  "0 < n \<Longrightarrow> xmlURIUnescapeString s (int n) = unesc (take n s)"
  by (simp add: xmlURIUnescapeString_def unesc_def)

lemma query_section_append:
  assumes "CHR ''&'' \<notin> set sec" "rest = [] \<or> hd rest = CHR ''&''" "sec \<noteq> ''=''"
  shows "query_section (sec @ rest) = section_field sec"
proof -
  have e: "query_end (sec @ rest) = length sec"
    using assms by (simp add: query_end_append)
  have q: "query_eq (sec @ rest) =
           (if CHR ''='' \<in> set sec then Some (length (takeWhile (\<lambda>c. c \<noteq> CHR ''='') sec)) else None)"
    using assms by (simp add: query_eq_append)
  show ?thesis
  proof (cases "sec = []")
    case True
    then show ?thesis using e by (simp add: query_section_def section_field_def)
  next
    case ne: False
    show ?thesis
    proof (cases "CHR ''='' \<in> set sec")
      case False
      moreover have "hd sec \<noteq> CHR ''=''" using False ne by (cases sec) auto
      ultimately show ?thesis
        using ne e q
        by (simp add: query_section_def section_field_def takeWhile_notin dropWhile_notin
                      xmlURIUnescapeString_take unesc_def cstr_def)
    next
      case True
      define n where "n = takeWhile (\<lambda>c. c \<noteq> CHR ''='') sec"
      define v where "v = drop 1 (dropWhile (\<lambda>c. c \<noteq> CHR ''='') sec)"
      have "dropWhile (\<lambda>c. c \<noteq> CHR ''='') sec \<noteq> []" using True by simp
      then have "dropWhile (\<lambda>c. c \<noteq> CHR ''='') sec = CHR ''='' # v"
        unfolding v_def using hd_dropWhile [of "\<lambda>c. c \<noteq> CHR ''=''" sec]
        by (cases "dropWhile (\<lambda>c. c \<noteq> CHR ''='') sec") auto
      then have sec: "sec = n @ CHR ''='' # v"
        unfolding n_def by (metis takeWhile_dropWhile_id)
      have hd: "hd sec = CHR ''='' \<longleftrightarrow> n = []"
        using sec n_def by (cases sec) auto
      have len: "length sec = Suc (length n + length v)" using sec by simp
      have tw: "takeWhile (\<lambda>c. c \<noteq> CHR ''='') sec = n" by (simp add: n_def)
      have dw: "drop (Suc 0) (dropWhile (\<lambda>c. c \<noteq> CHR ''='') sec) = v" by (simp add: v_def)
      have tk: "take (length n) (sec @ rest) = n" using sec by simp
      have dr: "drop (Suc (length n)) (sec @ rest) = v @ rest" using sec by simp
      show ?thesis
      proof (cases "v = []")
        case True
        with assms sec have "n \<noteq> []" by auto
        with True show ?thesis
          using e q \<open>CHR ''='' \<in> set sec\<close> ne hd tk len
          by (simp add: query_section_def section_field_def tw dw
                xmlURIUnescapeString_take unesc_def cstr_def)
      next
        case False
        then show ?thesis
          using e q \<open>CHR ''='' \<in> set sec\<close> ne hd tk dr len
          by (auto simp: query_section_def section_field_def tw dw
                xmlURIUnescapeString_take xmlURIUnescapeString_def unesc_def)
      qed
    qed
  qed
qed


lemma query_parse_loop_Nil: "query_parse_loop [] flds = flds"
  by (simp add: query_parse_loop.simps)

lemma split_first_section:
  obtains sec rest where "q = sec @ rest" "CHR ''&'' \<notin> set sec" "rest = [] \<or> hd rest = CHR ''&''"
proof
  show "q = takeWhile (\<lambda>c. c \<noteq> CHR ''&'') q @ dropWhile (\<lambda>c. c \<noteq> CHR ''&'') q" by simp
  show "CHR ''&'' \<notin> set (takeWhile (\<lambda>c. c \<noteq> CHR ''&'') q)"
    by (auto dest: set_takeWhileD)
  show "dropWhile (\<lambda>c. c \<noteq> CHR ''&'') q = [] \<or> hd (dropWhile (\<lambda>c. c \<noteq> CHR ''&'') q) = CHR ''&''"
    using hd_dropWhile [of "\<lambda>c. c \<noteq> CHR ''&''" q] by auto
qed

lemma query_next_append:
  "CHR ''&'' \<notin> set sec \<Longrightarrow> rest = [] \<or> hd rest = CHR ''&'' \<Longrightarrow> query_next (sec @ rest) = drop 1 rest"
  by (auto simp: query_next_def query_end_append)

lemma query_parse_loop_sections:
  "''='' \<notin> set (sections q) \<Longrightarrow>
   query_parse_loop q flds = flds @ concat (map section_field (sections q))"
proof (induction q flds rule: query_parse_loop.induct)
  case (1 q flds)
  show ?case
  proof (cases "q = []")
    case True
    then show ?thesis by (simp add: query_parse_loop_Nil section_field_def)
  next
    case False
    obtain sec rest where q: "q = sec @ rest" and sec: "CHR ''&'' \<notin> set sec"
      and rest: "rest = [] \<or> hd rest = CHR ''&''"
      by (rule split_first_section)
    show ?thesis
    proof (cases rest)
      case Nil
      with q sec "1.prems" have ne: "sec \<noteq> ''=''" by (auto simp: sections_single)
      have "query_parse_loop q flds = query_parse_loop [] (flds @ query_section q)"
        using False q sec rest Nil query_next_append [of sec rest]
        by (subst query_parse_loop.simps) simp
      also have "\<dots> = flds @ section_field sec"
        using q sec rest ne query_section_append [of sec rest] by (simp add: query_parse_loop_Nil)
      finally show ?thesis using q sec Nil by (simp add: sections_single)
    next
      case (Cons c r)
      with rest have c: "c = CHR ''&''" by simp
      have secs: "sections q = sec # sections r" using q sec Cons c by (simp add: sections_append)
      with "1.prems" have ne: "sec \<noteq> ''=''" and r: "''='' \<notin> set (sections r)" by auto
      have nx: "query_next q = r" using q sec rest Cons query_next_append [of sec rest] by simp
      have "query_parse_loop q flds = query_parse_loop r (flds @ query_section q)"
        using False nx by (subst query_parse_loop.simps) simp
      also have "\<dots> = (flds @ query_section q) @ concat (map section_field (sections r))"
        using "1.IH" [OF False] nx r by simp
      also have "query_section q = section_field sec"
        using q sec rest ne query_section_append [of sec rest] by simp
      finally show ?thesis using secs by simp
    qed
  qed
qed

lemma query_parse_sections:
  "''='' \<notin> set (sections q) \<Longrightarrow> query_parse (Some q) = concat (map section_field (sections q))"
  by (simp add: query_parse_def query_parse_loop_sections section_field_def)

lemma join_amp_sections: "join_amp (sections q) = q"
proof (induction q)
  case Nil
  then show ?case by simp
next
  case (Cons c cs)
  obtain s ss where s: "sections cs = s # ss"
    using sections_nonempty [of cs] by (cases "sections cs") auto
  with Cons show ?case by (cases ss) auto
qed

lemma query_section_lone_eq:
  assumes "rest = [] \<or> hd rest = CHR ''&''"
  shows "query_section (''='' @ rest) =
           [\<lparr>name = unesc (''='' @ rest), value = [], ignore = False\<rparr>]"
proof -
  have e: "query_end (''='' @ rest) = 1"
    using assms query_end_append [of "''=''" rest] by simp
  have q: "query_eq (''='' @ rest) = Some 0"
    using assms query_eq_append [of "''=''" rest] by simp
  show ?thesis
    using e q by (simp add: query_section_def xmlURIUnescapeString_def unesc_def)
qed

lemma query_parse_loop_section_fields:
  "query_parse_loop q flds = flds @ section_fields (sections q)"
proof (induction q flds rule: query_parse_loop.induct)
  case (1 q flds)
  show ?case
  proof (cases "q = []")
    case True
    then show ?thesis by (simp add: query_parse_loop_Nil section_field_def)
  next
    case False
    obtain sec rest where q: "q = sec @ rest" and sec: "CHR ''&'' \<notin> set sec"
      and rest: "rest = [] \<or> hd rest = CHR ''&''"
      by (rule split_first_section)
    have qs: "query_section q =
                (if sec = ''='' then [\<lparr>name = unesc q, value = [], ignore = False\<rparr>]
                 else section_field sec)"
      using q sec rest query_section_append [of sec rest] query_section_lone_eq [of rest]
      by simp
    show ?thesis
    proof (cases rest)
      case Nil
      have "query_parse_loop q flds = query_parse_loop [] (flds @ query_section q)"
        using False q sec rest Nil query_next_append [of sec rest]
        by (subst query_parse_loop.simps) simp
      then show ?thesis using q sec Nil qs by (simp add: query_parse_loop_Nil sections_single)
    next
      case (Cons c r)
      with rest have c: "c = CHR ''&''" by simp
      have secs: "sections q = sec # sections r" using q sec Cons c by (simp add: sections_append)
      have j: "join_amp (sec # sections r) = q"
        using join_amp_sections [of q] secs by simp
      have nx: "query_next q = r" using q sec rest Cons query_next_append [of sec rest] by simp
      have "query_parse_loop q flds = query_parse_loop r (flds @ query_section q)"
        using False nx by (subst query_parse_loop.simps) simp
      also have "\<dots> = (flds @ query_section q) @ section_fields (sections r)"
        using "1.IH" [OF False] nx by simp
      finally have "query_parse_loop q flds =
            (flds @ query_section q) @ section_fields (sections r)" .
      moreover have "section_fields (sec # sections r) =
            (if sec = ''=''
             then [\<lparr>name = unesc (join_amp (sec # sections r)), value = [], ignore = False\<rparr>]
             else section_field sec) @ section_fields (sections r)"
        by (rule section_fields.simps)
      ultimately show ?thesis unfolding secs j qs by simp
    qed
  qed
qed

lemma query_parse_section_fields:
  "query_parse (Some q) = section_fields (sections q)"
  by (simp add: query_parse_def query_parse_loop_section_fields section_field_def)

text \<open>
  C7 does not hold of the code at a section that is exactly \<open>=\<close>. The query string
  handed to \<open>query_parse\<close> is what follows the \<open>?\<close> of the URI, so the \<open>?\<close> of the
  specification's examples is the absent or empty query. \<open>query_parse\<close> maps the absent
  and the empty query, \<open>&\<close>, \<open>a\<close>, \<open>a=\<close>, \<open>=b\<close> and \<open>a=b&c=d\<close> to \<open>[]\<close>, \<open>[]\<close>, \<open>[]\<close>,
  \<open>[(a, "")]\<close>, \<open>[(a, "")]\<close>, \<open>[]\<close> and \<open>[(a, b), (c, d)]\<close>. But the test for a trailing
  \<open>=\<close> (\<open>eq+1 == end\<close>) comes before the test for a leading one (\<open>query == eq\<close>), so a
  section that is exactly \<open>=\<close> is not dropped: its name is decoded with length 0, which
  the decoder takes for the whole rest of the string. The query \<open>=\<close> gives one field named
  \<open>=\<close>, and \<open>=&a=b\<close> gives a field named \<open>=&a=b\<close> before the field \<open>(a, b)\<close>. For every
  query string, the result is \<open>section_fields\<close> of its sections: apart from the sections
  that are exactly \<open>=\<close>, empty sections and sections starting with \<open>=\<close> are dropped, and a
  name with no \<open>=\<close> or with a trailing \<open>=\<close> gets the empty value.
\<close>

theorem query_parse_lone_equals:
  "query_parse None = []
   \<and> query_parse (Some []) = []
   \<and> query_parse (Some ''&'') = []
   \<and> query_parse (Some ''a'') = [\<lparr>name = ''a'', value = [], ignore = False\<rparr>]
   \<and> query_parse (Some ''a='') = [\<lparr>name = ''a'', value = [], ignore = False\<rparr>]
   \<and> query_parse (Some ''=b'') = []
   \<and> query_parse (Some ''a=b&c=d'') =
       [\<lparr>name = ''a'', value = ''b'', ignore = False\<rparr>,
        \<lparr>name = ''c'', value = ''d'', ignore = False\<rparr>]
   \<and> query_parse (Some ''='') = [\<lparr>name = ''='', value = [], ignore = False\<rparr>]
   \<and> query_parse (Some ''=&a=b'') =
       [\<lparr>name = ''=&a=b'', value = [], ignore = False\<rparr>,
        \<lparr>name = ''a'', value = ''b'', ignore = False\<rparr>]
   \<and> query_parse (Some q) = section_fields (sections q)"
proof -
  have n: "query_parse None = []" by (simp add: query_parse_def)
  show ?thesis
    unfolding query_parse_section_fields
    by (simp add: n section_field_def unesc_def cstr_def NUL_def)
qed

theorem query_parse_lone_equals_witness:
  "query_parse (Some ''k=%41&&=x&=&n'') =
     [\<lparr>name = ''k'', value = ''A'', ignore = False\<rparr>,
      \<lparr>name = ''=&n'', value = [], ignore = False\<rparr>,
      \<lparr>name = ''n'', value = [], ignore = False\<rparr>]"
proof -
  have "query_parse (Some ''k=%41&&=x&=&n'') = section_fields (sections ''k=%41&&=x&=&n'')"
    using query_parse_lone_equals [of "''k=%41&&=x&=&n''"] by blast
  then show ?thesis
    by (simp add: section_field_def unesc_def cstr_def NUL_def is_hex_def hex_value_def
          char_of_def bit_Suc_0_iff)
qed

section \<open>Properties of \<open>remoteOpen\<close>\<close>

text \<open>
  C8: for the URI \<open>qemu+ssh://alice@host/system?netcat=ncat\<close>, \<open>remoteOpen\<close> reaches the
  connection switch with port \<open>22\<close>, no command and no socket name from the query, and asks
  for the program \<open>ssh\<close> with exactly the argument vector \<open>ssh -p 22 -l alice host ncat -U\<close>
  followed by the default Unix socket path, in that order.
\<close>

theorem remoteOpen_ssh_argv:
  "\<exists>p. remoteOpen_prepare E
          (Some \<lparr>scheme = Some ''qemu+ssh'', server = Some ''host'', user = Some ''alice'',
                 port = 0, path = Some ''/system'', query = Some ''netcat=ncat''\<rparr>) = Inr p
        \<and> p_port p = Some ''22''
        \<and> o_command (p_vars p) = None
        \<and> o_sockname (p_vars p) = None
        \<and> remoteOpen_dial E p flags =
            Some (DialExec (Some ''ssh'')
                    (Some [''ssh'', ''-p'', ''22'', ''-l'', ''alice'', ''host'', ''ncat'', ''-U'',
                           LIBVIRTD_UNIX_SOCKET E]))"
  by (simp add: remoteOpen_prepare_def remoteOpen_dial_def get_transport_from_scheme_def
        select_transport_def c_tolower_def extract_var_def query_parse_def
        query_parse_loop.simps query_next_def query_end_def query_eq_def query_section_def
        xmlURIUnescapeString_def cstr_def NUL_def is_hex_def Let_def)

theorem remoteOpen_ssh_argv_witness:
  "\<exists>p. remoteOpen_prepare example_env
          (Some \<lparr>scheme = Some ''qemu+ssh'', server = Some ''host'', user = Some ''alice'',
                 port = 0, path = Some ''/system'', query = Some ''netcat=ncat''\<rparr>) = Inr p
        \<and> remoteOpen_dial example_env p 0 =
            Some (DialExec (Some ''ssh'')
                    (Some [''ssh'', ''-p'', ''22'', ''-l'', ''alice'', ''host'', ''ncat'', ''-U'',
                           ''/var/run/libvirt/libvirt-sock'']))"
proof -
  have s: "LIBVIRTD_UNIX_SOCKET example_env = ''/var/run/libvirt/libvirt-sock''"
    by (simp add: example_env_def)
  obtain p where
    "remoteOpen_prepare example_env
       (Some \<lparr>scheme = Some ''qemu+ssh'', server = Some ''host'', user = Some ''alice'',
              port = 0, path = Some ''/system'', query = Some ''netcat=ncat''\<rparr>) = Inr p"
    "remoteOpen_dial example_env p 0 =
       Some (DialExec (Some ''ssh'')
               (Some [''ssh'', ''-p'', ''22'', ''-l'', ''alice'', ''host'', ''ncat'', ''-U'',
                      LIBVIRTD_UNIX_SOCKET example_env]))"
    using remoteOpen_ssh_argv [of example_env 0] by blast
  then show ?thesis unfolding s by blast
qed

section \<open>Properties of the RPC engine\<close>

lemma sint_minus_4:
  fixes rlen :: "32 word"
  shows "sint (rlen - 4) = (if - (2 ^ 31) + 4 \<le> sint rlen then sint rlen - 4 else sint rlen - 4 + 2 ^ 32)"
proof -
  define x where "x = sint rlen"
  have lo: "- (2 ^ 31) \<le> x" and hi: "x < 2 ^ 31"
    using sint_ge [of rlen] sint_lt [of rlen] by (simp_all add: x_def)
  have s: "sint (rlen - 4) = take_bit 32 (x - 4 + 2 ^ 31) - 2 ^ 31"
    by (simp add: sint_word_ariths signed_take_bit_eq_take_bit_shift x_def)
  show ?thesis
  proof (cases "- (2 ^ 31) + 4 \<le> x")
    case True
    then have "take_bit 32 (x - 4 + 2 ^ 31) = x - 4 + 2 ^ 31"
      using hi by (simp add: take_bit_int_eq_self)
    with True s show ?thesis by (simp add: x_def)
  next
    case False
    have "take_bit 32 (x - 4 + 2 ^ 31) = take_bit 32 (x - 4 + 2 ^ 31 + 2 ^ 32)"
      using mod_add_self2 [of "x - 4 + 2 ^ 31" "2 ^ 32"] by (simp add: take_bit_eq_mod)
    also have "\<dots> = x - 4 + 2 ^ 31 + 2 ^ 32"
      using False lo by (simp add: take_bit_int_eq_self)
    finally show ?thesis using False s by (simp add: x_def)
  qed
qed

lemma length_word_check:
  fixes rlen :: "32 word"
  assumes "REMOTE_MESSAGE_MAX E \<le> 2 ^ 31 - 5"
  shows "(sint (rlen - 4) < 0 \<or> sint (rlen - 4) > REMOTE_MESSAGE_MAX E)
         \<longleftrightarrow> \<not> (4 \<le> sint rlen \<and> sint rlen \<le> REMOTE_MESSAGE_MAX E + 4)"
  using assms sint_ge [of rlen] sint_lt [of rlen] by (auto simp: sint_minus_4 split: if_splits)

lemma call_counter:
  "call E priv0 in_open proc_nr args ret_filter w = (r, priv, w') \<Longrightarrow>
   priv = priv0\<lparr>counter := counter priv0 + 1\<rparr>"
  by (auto simp: call_def call_serial_def Let_def split: prod.splits sum.splits)

lemma remoteOpen_installs:
  assumes "remoteOpen E conn uri flags w = ((VIR_DRV_OPEN_SUCCESS, errs), conn', w')"
  shows "\<exists>p. privateData conn' = Some p \<and> magic p = MAGIC \<and> counter p = 1"
  using assms
  by (auto simp: remoteOpen_def remoteOpen_prepare_def Let_def initial_private_data_def
           dest!: call_counter
           split: sum.splits option.splits prod.splits if_splits)

text \<open>Rules that evaluate the model on a concrete world.\<close>

lemmas io_eval =
  really_read_def really_write_def really_read_loop.simps really_write_loop.simps
  sys_read_def sys_write_def log_def error_def peer_def

lemmas xdr_eval =
  xdrmem_put_def xdr_remote_message_header_enc_def xdr_remote_message_header_dec_def
  xdr_u_int_enc_def xdr_u_int_dec_def xdr_void_def

text \<open>
  C1 as stated fails: a reply whose length word is \<open>REMOTE_MESSAGE_MAX + 1\<close> is not
  rejected. With the limit 262144, the length word 262145 makes \<open>call\<close> ask for 262141
  more bytes and read the payload bytes the peer offers.
\<close>

theorem call_length_word_counterexample:
  "call example_env example_priv False 2 (Some []) xdr_void
     (peer [RdBytes (xdr_u_int_enc 262145), RdBytes [1, 2, 3]]) =
   (Inl (error True VIR_ERR_RPC ''socket closed unexpectedly''),
    example_priv\<lparr>counter := 2\<rparr>,
    \<lparr>rd_script = [], wr_script = [],
     trace = [EvWrite [0, 0, 0, 28],
              EvWrite [32, 0, 128, 134, 0, 0, 0, 1, 0, 0, 0, 2, 0, 0, 0, 0, 0, 0, 0, 1,
                       0, 0, 0, 0],
              EvRead 4 [0, 4, 0, 1], EvRead 262141 [1, 2, 3], EvRead 262138 []]\<rparr>)"
  by (simp add: call_def call_serial_def call_send_def call_receive_def io_eval xdr_eval
        example_env_def example_priv_def Let_def)

text \<open>
  C1, amended: once the request is sent and the 4-byte length word of the reply is read
  and decoded, \<open>call\<close> subtracts 4 and goes on to read the payload exactly when
  \<open>4 \<le> length \<le> REMOTE_MESSAGE_MAX + 4\<close> (the limit bounds the payload, not the frame).
  Otherwise it fails with the Rpc error "packet received from server too large" and the
  world is the one left by the read of the length word: no further byte is read.
\<close>

theorem call_length_word:
  assumes "REMOTE_MESSAGE_MAX E \<le> 2 ^ 31 - 5"
    and "call_serial priv0 = (ser, priv)"
    and "call_send E priv in_open
           \<lparr>prog = REMOTE_PROGRAM E, vers = REMOTE_PROTOCOL_VERSION E, proc = proc_nr,
            direction = REMOTE_CALL E, serial = ser, status = REMOTE_OK E\<rparr> args w = (Inr u, w1)"
    and "really_read priv in_open 4 w1 = (Inr buffer2, w2)"
    and "xdr_u_int_dec buffer2 = Some (rlen, rest)"
  shows "call E priv0 in_open proc_nr args ret_filter w =
           (if 4 \<le> sint rlen \<and> sint rlen \<le> REMOTE_MESSAGE_MAX E + 4 then
              (case really_read priv in_open (sint rlen - 4) w2 of
                 (Inl e, w3) \<Rightarrow> (Inl e, priv, w3)
               | (Inr buffer, w3) \<Rightarrow>
                   (call_reply E in_open proc_nr ser ret_filter buffer, priv, w3))
            else
              (Inl (error (\<not> in_open) VIR_ERR_RPC ''packet received from server too large''),
               priv, w2))"
proof (cases "4 \<le> sint rlen \<and> sint rlen \<le> REMOTE_MESSAGE_MAX E + 4")
  case True
  then have ok: "\<not> (sint (rlen - 4) < 0 \<or> sint (rlen - 4) > REMOTE_MESSAGE_MAX E)"
    using length_word_check [OF assms(1), of rlen] by simp
  have "- (2 ^ 31) + 4 \<le> sint rlen" using True by simp
  then have "sint (rlen - 4) = sint rlen - 4" by (simp add: sint_minus_4)
  with True ok assms(2-5) show ?thesis
    by (simp add: call_def call_receive_def Let_def split: prod.splits sum.splits)
next
  case False
  then have "sint (rlen - 4) < 0 \<or> sint (rlen - 4) > REMOTE_MESSAGE_MAX E"
    using length_word_check [OF assms(1), of rlen] by simp
  with False assms(2-5) show ?thesis
    by (auto simp: call_def call_receive_def Let_def)
qed

theorem call_length_word_witness:
  "call example_env example_priv False 2 (Some []) xdr_void
     (peer [RdBytes (xdr_u_int_enc 3), RdBytes [1, 2, 3]]) =
   (Inl (error True VIR_ERR_RPC ''packet received from server too large''),
    example_priv\<lparr>counter := 2\<rparr>,
    \<lparr>rd_script = [RdBytes [1, 2, 3]], wr_script = [],
     trace = [EvWrite [0, 0, 0, 28],
              EvWrite [32, 0, 128, 134, 0, 0, 0, 1, 0, 0, 0, 2, 0, 0, 0, 0, 0, 0, 0, 1,
                       0, 0, 0, 0],
              EvRead 4 [0, 0, 0, 3]]\<rparr>)
   \<and> call example_env example_priv False 2 (Some []) xdr_void
     (peer [RdBytes (xdr_u_int_enc 262149), RdBytes [1, 2, 3]]) =
   (Inl (error True VIR_ERR_RPC ''packet received from server too large''),
    example_priv\<lparr>counter := 2\<rparr>,
    \<lparr>rd_script = [RdBytes [1, 2, 3]], wr_script = [],
     trace = [EvWrite [0, 0, 0, 28],
              EvWrite [32, 0, 128, 134, 0, 0, 0, 1, 0, 0, 0, 2, 0, 0, 0, 0, 0, 0, 0, 1,
                       0, 0, 0, 0],
              EvRead 4 [0, 4, 0, 5]]\<rparr>)"
proof -
  let ?w1 = "\<lambda>lw. \<lparr>rd_script = [RdBytes lw, RdBytes [1, 2, 3]], wr_script = [],
     trace = [EvWrite [0, 0, 0, 28],
              EvWrite [32, 0, 128, 134, 0, 0, 0, 1, 0, 0, 0, 2, 0, 0, 0, 0, 0, 0, 0, 1,
                       0, 0, 0, 0]]\<rparr>"
  let ?w2 = "\<lambda>lw. \<lparr>rd_script = [RdBytes [1, 2, 3]], wr_script = [],
     trace = [EvWrite [0, 0, 0, 28],
              EvWrite [32, 0, 128, 134, 0, 0, 0, 1, 0, 0, 0, 2, 0, 0, 0, 0, 0, 0, 0, 1,
                       0, 0, 0, 0],
              EvRead 4 lw]\<rparr>"
  have m: "REMOTE_MESSAGE_MAX example_env \<le> 2 ^ 31 - 5" by (simp add: example_env_def)
  have s: "call_serial example_priv = (1, example_priv\<lparr>counter := 2\<rparr>)"
    by (simp add: call_serial_def example_priv_def)
  have snd: "call_send example_env (example_priv\<lparr>counter := 2\<rparr>) False
           \<lparr>prog = REMOTE_PROGRAM example_env, vers = REMOTE_PROTOCOL_VERSION example_env,
            proc = 2, direction = REMOTE_CALL example_env, serial = 1,
            status = REMOTE_OK example_env\<rparr> (Some []) (peer [RdBytes lw, RdBytes [1, 2, 3]])
         = (Inr (), ?w1 lw)" for lw
    by (simp add: call_send_def io_eval xdr_eval example_env_def example_priv_def Let_def)
  have rd: "really_read (example_priv\<lparr>counter := 2\<rparr>) False 4 (?w1 [a, b, c, d])
         = (Inr [a, b, c, d], ?w2 [a, b, c, d])" for a b c d
    by (simp add: io_eval example_priv_def Let_def)
  have d3: "xdr_u_int_enc 3 = [0, 0, 0, 3]" and d5: "xdr_u_int_enc 262149 = [0, 4, 0, 5]"
    by (simp_all add: xdr_eval)
  have x3: "xdr_u_int_dec [0, 0, 0, 3] = Some (3, [])"
    and x5: "xdr_u_int_dec [0, 4, 0, 5] = Some (262149, [])"
    by (simp_all add: xdr_eval)
  have "call example_env example_priv False 2 (Some []) xdr_void
          (peer [RdBytes [0, 0, 0, 3], RdBytes [1, 2, 3]]) =
        (Inl (error True VIR_ERR_RPC ''packet received from server too large''),
         example_priv\<lparr>counter := 2\<rparr>, ?w2 [0, 0, 0, 3])"
    using call_length_word [OF m s snd rd x3, of xdr_void] by (simp add: example_env_def)
  moreover have "call example_env example_priv False 2 (Some []) xdr_void
          (peer [RdBytes [0, 4, 0, 5], RdBytes [1, 2, 3]]) =
        (Inl (error True VIR_ERR_RPC ''packet received from server too large''),
         example_priv\<lparr>counter := 2\<rparr>, ?w2 [0, 4, 0, 5])"
    using call_length_word [OF m s snd rd x5, of xdr_void] by (simp add: example_env_def)
  ultimately show ?thesis by (simp add: d3 d5)
qed

text \<open>
  C4: when the request has been sent and the reply has been read and its header decoded,
  \<open>call\<close> hands the reply to the status dispatch exactly when program, version,
  procedure and serial equal those of the request and the direction is Reply. Otherwise
  it fails with an Rpc error whose message names one of these five fields and which
  carries the observed value of that field and the expected value it differs from.
\<close>

theorem call_header_validation:
  assumes "call_serial priv0 = (ser, priv)"
    and "call_send E priv in_open
           \<lparr>prog = REMOTE_PROGRAM E, vers = REMOTE_PROTOCOL_VERSION E, proc = proc_nr,
            direction = REMOTE_CALL E, serial = ser, status = REMOTE_OK E\<rparr> args w = (Inr u, w1)"
    and "really_read priv in_open 4 w1 = (Inr buffer2, w2)"
    and "xdr_u_int_dec buffer2 = Some (rlen, rest2)"
    and "\<not> (sint (rlen - 4) < 0 \<or> sint (rlen - 4) > REMOTE_MESSAGE_MAX E)"
    and "really_read priv in_open (sint (rlen - 4)) w2 = (Inr buffer, w3)"
    and "xdr_remote_message_header_dec buffer = Some (hdr, rest)"
  shows "(if prog hdr = REMOTE_PROGRAM E \<and> vers hdr = REMOTE_PROTOCOL_VERSION E
             \<and> proc hdr = proc_nr \<and> direction hdr = REMOTE_REPLY E \<and> serial hdr = ser
          then call E priv0 in_open proc_nr args ret_filter w =
                 (call_status E in_open ret_filter hdr rest, priv, w3)
          else (\<exists>text observed expected.
                  call E priv0 in_open proc_nr args ret_filter w =
                    (Inl (Raised (\<not> in_open) VIR_ERR_RPC text [observed, expected]), priv, w3)
                  \<and> observed \<noteq> expected
                  \<and> (text, observed, expected) \<in>
                      {(''unknown program (received %x, expected %x)'',
                        prog hdr, REMOTE_PROGRAM E),
                       (''unknown protocol version (received %x, expected %x)'',
                        vers hdr, REMOTE_PROTOCOL_VERSION E),
                       (''unknown procedure (received %x, expected %x)'', proc hdr, proc_nr),
                       (''unknown direction (received %x, expected %x)'',
                        direction hdr, REMOTE_REPLY E),
                       (''unknown serial (received %x, expected %x)'', serial hdr, ser)}))"
proof -
  have c: "call E priv0 in_open proc_nr args ret_filter w =
           (call_reply E in_open proc_nr ser ret_filter buffer, priv, w3)"
    using assms(1-6) by (simp add: call_def call_receive_def Let_def)
  show ?thesis
    unfolding c using assms(7) by (auto simp: call_reply_def)
qed

theorem call_header_validation_witness:
  "call example_env example_priv False 2 (Some []) xdr_void
     (peer [RdBytes (reply_frame 2 7 0 [])]) =
   (Inl (Raised True VIR_ERR_RPC ''unknown serial (received %x, expected %x)'' [7, 1]),
    example_priv\<lparr>counter := 2\<rparr>,
    \<lparr>rd_script = [], wr_script = [],
     trace = [EvWrite [0, 0, 0, 28],
              EvWrite [32, 0, 128, 134, 0, 0, 0, 1, 0, 0, 0, 2, 0, 0, 0, 0, 0, 0, 0, 1,
                       0, 0, 0, 0],
              EvRead 4 [0, 0, 0, 28],
              EvRead 24 [32, 0, 128, 134, 0, 0, 0, 1, 0, 0, 0, 2, 0, 0, 0, 1, 0, 0, 0, 7,
                         0, 0, 0, 0]]\<rparr>)"
proof -
  let ?hdr = "[32, 0, 128, 134, 0, 0, 0, 1, 0, 0, 0, 2, 0, 0, 0, 1, 0, 0, 0, 7,
               0, 0, 0, 0] :: byte list"
  let ?tr = "[EvWrite [0, 0, 0, 28],
              EvWrite [32, 0, 128, 134, 0, 0, 0, 1, 0, 0, 0, 2, 0, 0, 0, 0, 0, 0, 0, 1,
                       0, 0, 0, 0]]"
  let ?w1 = "\<lparr>rd_script = [RdBytes ([0, 0, 0, 28] @ ?hdr)], wr_script = [], trace = ?tr\<rparr>"
  let ?w2 = "\<lparr>rd_script = [RdBytes ?hdr], wr_script = [],
              trace = ?tr @ [EvRead 4 [0, 0, 0, 28]]\<rparr>"
  let ?w3 = "\<lparr>rd_script = [], wr_script = [],
              trace = ?tr @ [EvRead 4 [0, 0, 0, 28], EvRead 24 ?hdr]\<rparr>"
  let ?h = "\<lparr>prog = 0x20008086, vers = 1, proc = 2, direction = 1, serial = 7,
             status = 0\<rparr> :: remote_message_header"
  have f: "reply_frame 2 7 0 [] = [0, 0, 0, 28] @ ?hdr"
    by (simp add: reply_frame_def xdr_eval)
  have s: "call_serial example_priv = (1, example_priv\<lparr>counter := 2\<rparr>)"
    by (simp add: call_serial_def example_priv_def)
  have snd: "call_send example_env (example_priv\<lparr>counter := 2\<rparr>) False
           \<lparr>prog = REMOTE_PROGRAM example_env, vers = REMOTE_PROTOCOL_VERSION example_env,
            proc = 2, direction = REMOTE_CALL example_env, serial = 1,
            status = REMOTE_OK example_env\<rparr> (Some [])
           (peer [RdBytes ([0, 0, 0, 28] @ ?hdr)]) = (Inr (), ?w1)"
    by (simp add: call_send_def io_eval xdr_eval example_env_def example_priv_def Let_def)
  have rd: "really_read (example_priv\<lparr>counter := 2\<rparr>) False 4 ?w1 = (Inr [0, 0, 0, 28], ?w2)"
    by (simp add: io_eval example_priv_def Let_def)
  have x: "xdr_u_int_dec [0, 0, 0, 28] = Some (28, [])"
    by (simp add: xdr_eval)
  have r: "\<not> (sint (28 - 4 :: 32 word) < 0 \<or> sint (28 - 4 :: 32 word) > REMOTE_MESSAGE_MAX example_env)"
    by (simp add: example_env_def)
  have rd2: "really_read (example_priv\<lparr>counter := 2\<rparr>) False (sint (28 - 4 :: 32 word)) ?w2
             = (Inr ?hdr, ?w3)"
    by (simp add: io_eval example_priv_def Let_def)
  have d: "xdr_remote_message_header_dec ?hdr = Some (?h, [])"
    by (simp add: xdr_eval)
  have e: "REMOTE_PROGRAM example_env = 0x20008086" "REMOTE_PROTOCOL_VERSION example_env = 1"
    "REMOTE_REPLY example_env = 1"
    by (simp_all add: example_env_def)
  show ?thesis
    using call_header_validation [OF s snd rd x r rd2 d, of xdr_void]
    by (auto simp: f e)
qed

lemma xdr_u_int_round_trip: "xdr_u_int_dec (xdr_u_int_enc v @ r) = Some (v, r)"
proof -
  have "push_bit 24 (ucast (ucast (drop_bit 24 v :: 32 word) :: 8 word)) OR
        push_bit 16 (ucast (ucast (drop_bit 16 v :: 32 word) :: 8 word)) OR
        push_bit 8 (ucast (ucast (drop_bit 8 v :: 32 word) :: 8 word)) OR
        ucast (ucast v :: 8 word) = v"
  proof (rule bit_word_eqI)
    fix n
    assume "n < LENGTH(32)"
    then show "bit (push_bit 24 (ucast (ucast (drop_bit 24 v :: 32 word) :: 8 word)) OR
        push_bit 16 (ucast (ucast (drop_bit 16 v :: 32 word) :: 8 word)) OR
        push_bit 8 (ucast (ucast (drop_bit 8 v :: 32 word) :: 8 word)) OR
        (ucast (ucast v :: 8 word) :: 32 word)) n = bit v n"
      by (cases "n < 8"; cases "n < 16"; cases "n < 24") (auto simp: bit_simps)
  qed
  then show ?thesis by (simp add: xdr_u_int_enc_def xdr_u_int_dec_def)
qed

lemma xdr_u_int_dec_extend:
  "xdr_u_int_dec bs = Some (v, r) \<Longrightarrow> xdr_u_int_dec (bs @ t) = Some (v, r @ t)"
  by (auto simp: xdr_u_int_dec_def split: list.splits)

lemma header_dec_extend:
  assumes "xdr_remote_message_header_dec bs = Some (h, r)"
  shows "xdr_remote_message_header_dec (bs @ t) = Some (h, r @ t)"
  using assms
  by (auto simp: xdr_remote_message_header_dec_def xdr_u_int_dec_extend split: option.splits)

lemma header_round_trip:
  "xdr_remote_message_header_dec (xdr_remote_message_header_enc h @ r) = Some (h, r)"
  by (simp add: xdr_remote_message_header_dec_def xdr_remote_message_header_enc_def
        xdr_u_int_round_trip)

lemma request_serial_extend:
  "request_serial bs = Some s \<Longrightarrow> request_serial (bs @ t) = Some s"
  by (auto simp: request_serial_def xdr_u_int_dec_extend header_dec_extend split: option.splits)

lemma request_serial_frame:
  "request_serial (xdr_u_int_enc l @ xdr_remote_message_header_enc h @ a) = Some (serial h)"
  by (simp add: request_serial_def xdr_u_int_round_trip header_round_trip)

lemma request_serial_prefix:
  assumes "xdr_u_int_enc l @ xdr_remote_message_header_enc h @ a = sent @ t"
  shows "request_serial sent = None \<or> request_serial sent = Some (serial h)"
proof (cases "request_serial sent")
  case None
  then show ?thesis by simp
next
  case (Some s)
  then have "request_serial (sent @ t) = Some s" by (rule request_serial_extend)
  with assms have "s = serial h" using request_serial_frame [of l h a] by simp
  with Some show ?thesis by simp
qed

lemma sys_write_trace:
  assumes "sys_write bs w = (x, w1)"
  shows "\<exists>ev. trace w1 = trace w @ [ev]
              \<and> written ev = (case x of Done n \<Rightarrow> take n bs | Interrupted \<Rightarrow> [] | Failed m \<Rightarrow> [])"
  using assms
  by (auto simp: sys_write_def log_def min_def split: list.splits wr_event.splits)

lemma sys_read_trace:
  assumes "sys_read len w = (x, w1)"
  shows "\<exists>ev. trace w1 = trace w @ [ev] \<and> written ev = [] \<and> wr_script w1 = wr_script w"
  using assms
  by (auto simp: sys_read_def log_def Let_def split: list.splits rd_event.splits)

lemma really_write_loop_sent:
  "really_write_loop tls io bs w = (r, w') \<Longrightarrow>
   \<exists>evs t. trace w' = trace w @ evs \<and> bs = concat (map written evs) @ t
            \<and> (r = Inr () \<longrightarrow> t = [])"
proof (induction tls io bs w arbitrary: r w' rule: really_write_loop.induct)
  case (1 tls io bs w)
  obtain x w1 where s: "sys_write bs w = (x, w1)" by (cases "sys_write bs w")
  then obtain ev where ev: "trace w1 = trace w @ [ev]"
    "written ev = (case x of Done n \<Rightarrow> take n bs | Interrupted \<Rightarrow> [] | Failed m \<Rightarrow> [])"
    using sys_write_trace by blast
  show ?case
  proof (cases x)
    case (Done n)
    show ?thesis
    proof (cases "drop n bs = []")
      case True
      then have "r = Inr ()" "w' = w1"
        using "1.prems" s Done by (simp_all add: really_write_loop.simps)
      moreover have "take n bs = bs" using True by simp
      ultimately show ?thesis
        using ev Done by (intro exI [of _ "[ev]"] exI [of _ "[]"]) simp
    next
      case False
      then have rec: "really_write_loop tls io (drop n bs) w1 = (r, w')"
        using "1.prems" s Done by (simp add: really_write_loop.simps)
      from "1.IH"(1) [OF s [symmetric] Done False rec]
      obtain evs t where e: "trace w' = trace w1 @ evs"
        "drop n bs = concat (map written evs) @ t" "r = Inr () \<longrightarrow> t = []"
        by blast
      have "bs = take n bs @ drop n bs" by simp
      then have "bs = concat (map written (ev # evs)) @ t"
        using e(2) ev(2) Done by simp
      with e ev show ?thesis
        by (intro exI [of _ "ev # evs"] exI [of _ t]) simp
    qed
  next
    case Interrupted
    show ?thesis
    proof (cases "bs = []")
      case True
      then have "r = Inr ()" "w' = w1"
        using "1.prems" s Interrupted by (simp_all add: really_write_loop.simps)
      then show ?thesis
        using ev Interrupted True by (intro exI [of _ "[ev]"] exI [of _ "[]"]) simp
    next
      case False
      then have rec: "really_write_loop tls io bs w1 = (r, w')"
        using "1.prems" s Interrupted by (simp add: really_write_loop.simps)
      from "1.IH"(2) [OF s [symmetric] Interrupted False rec]
      obtain evs t where e: "trace w' = trace w1 @ evs"
        "bs = concat (map written evs) @ t" "r = Inr () \<longrightarrow> t = []"
        by blast
      have "bs = concat (map written (ev # evs)) @ t"
        using e(2) ev(2) Interrupted by simp
      with e ev show ?thesis
        by (intro exI [of _ "ev # evs"] exI [of _ t]) simp
    qed
  next
    case (Failed m)
    then have "w' = w1" "r \<noteq> Inr ()"
      using "1.prems" s by (auto simp: really_write_loop.simps)
    then show ?thesis
      using ev Failed by (intro exI [of _ "[ev]"] exI [of _ bs]) simp
  qed
qed

lemma really_read_loop_sent:
  "really_read_loop tls io len got w = (r, w') \<Longrightarrow>
   \<exists>evs. trace w' = trace w @ evs \<and> concat (map written evs) = []
          \<and> wr_script w' = wr_script w"
proof (induction tls io len got w arbitrary: r w' rule: really_read_loop.induct)
  case (1 tls io len got w)
  obtain x w1 where s: "sys_read len w = (x, w1)" by (cases "sys_read len w")
  then obtain ev where ev: "trace w1 = trace w @ [ev]" "written ev = []"
    "wr_script w1 = wr_script w"
    using sys_read_trace by blast
  have stop: ?case if "w' = w1"
    using that ev by (intro exI [of _ "[ev]"]) simp
  have step: ?case
    if "trace w' = trace w1 @ evs" "concat (map written evs) = []"
       "wr_script w' = wr_script w1" for evs
    using that ev by (intro exI [of _ "ev # evs"]) simp
  show ?case
  proof (cases x)
    case (Done bs)
    show ?thesis
    proof (cases "bs = [] \<or> \<not> len - int (length bs) > 0")
      case True
      then have "w' = w1"
        using "1.prems" s Done by (auto simp: really_read_loop.simps split: if_splits)
      then show ?thesis by (rule stop)
    next
      case False
      then have a: "bs \<noteq> []" and b: "len - int (length bs) > 0" by auto
      have rec: "really_read_loop tls io (len - int (length bs)) (got @ bs) w1 = (r, w')"
        using "1.prems" s Done a b by (simp add: really_read_loop.simps)
      from "1.IH"(1) [OF s [symmetric] Done a b rec] show ?thesis
        using step by blast
    qed
  next
    case Interrupted
    show ?thesis
    proof (cases "len > 0")
      case True
      then have rec: "really_read_loop tls io len got w1 = (r, w')"
        using "1.prems" s Interrupted by (simp add: really_read_loop.simps)
      from "1.IH"(2) [OF s [symmetric] Interrupted True rec] show ?thesis
        using step by blast
    next
      case False
      then have "w' = w1"
        using "1.prems" s Interrupted by (simp add: really_read_loop.simps)
      then show ?thesis by (rule stop)
    qed
  next
    case (Failed m)
    then have "w' = w1"
      using "1.prems" s by (simp add: really_read_loop.simps)
    then show ?thesis by (rule stop)
  qed
qed

lemma really_write_loop_accepting:
  "wr_script w = [] \<Longrightarrow>
   really_write_loop tls io bs w = (Inr (), w\<lparr>trace := trace w @ [EvWrite bs]\<rparr>)"
  by (simp add: really_write_loop.simps sys_write_def log_def)

lemma call_receive_sent:
  assumes "call_receive E priv io proc_nr ser rf w = (r, w')"
  shows "\<exists>evs. trace w' = trace w @ evs \<and> concat (map written evs) = []
               \<and> wr_script w' = wr_script w"
proof -
  obtain r1 w1 where r1: "really_read priv io 4 w = (r1, w1)"
    by (cases "really_read priv io 4 w")
  then obtain evs1 where e1: "trace w1 = trace w @ evs1" "concat (map written evs1) = []"
    "wr_script w1 = wr_script w"
    unfolding really_read_def by (blast dest: really_read_loop_sent)
  have stop: ?thesis if "w' = w1"
    using that e1 by blast
  show ?thesis
  proof (cases "\<exists>len w2 r2. really_read priv io len w1 = (r2, w2) \<and> w' = w2")
    case True
    then obtain len w2 r2 where "really_read priv io len w1 = (r2, w')" by blast
    then obtain evs2 where e2: "trace w' = trace w1 @ evs2" "concat (map written evs2) = []"
      "wr_script w' = wr_script w1"
      unfolding really_read_def by (blast dest: really_read_loop_sent)
    with e1 show ?thesis by (intro exI [of _ "evs1 @ evs2"]) simp
  next
    case False
    then have "w' = w1"
      using assms r1
      by (auto simp: call_receive_def Let_def split: sum.splits option.splits if_splits prod.splits)
    then show ?thesis by (rule stop)
  qed
qed

lemma call_send_sent:
  assumes "call_send E priv io hdr args w = (r, w')"
  shows "\<exists>evs l a t. trace w' = trace w @ evs
           \<and> xdr_u_int_enc l @ xdr_remote_message_header_enc hdr @ a
               = concat (map written evs) @ t"
proof (cases "\<exists>a. args = Some a \<and> 24 + int (length a) \<le> REMOTE_MESSAGE_MAX E")
  case False
  have len: "length (xdr_remote_message_header_enc hdr) = 24"
    by (simp add: xdr_remote_message_header_enc_def xdr_u_int_enc_def)
  from False have "w' = w"
    using assms
    by (auto simp: call_send_def xdrmem_put_def len split: option.splits if_splits)
  then show ?thesis by (intro exI [of _ "[]"]) simp
next
  case True
  then obtain a where a: "args = Some a" "24 + int (length a) \<le> REMOTE_MESSAGE_MAX E" by blast
  have len: "length (xdr_remote_message_header_enc hdr) = 24"
    by (simp add: xdr_remote_message_header_enc_def xdr_u_int_enc_def)
  define H where "H = xdr_remote_message_header_enc hdr"
  define L where "L = xdr_u_int_enc (word_of_nat (length (H @ a)) + 4)"
  obtain r1 w1 where r1: "really_write priv io L w = (r1, w1)"
    by (cases "really_write priv io L w")
  then obtain evs1 t1 where e1: "trace w1 = trace w @ evs1" "L = concat (map written evs1) @ t1"
    "r1 = Inr () \<longrightarrow> t1 = []"
    unfolding really_write_def by (blast dest: really_write_loop_sent)
  have cs: "call_send E priv io hdr args w =
              (case r1 of Inl e \<Rightarrow> (Inl e, w1) | Inr u \<Rightarrow> really_write priv io (H @ a) w1)"
    using a r1 len
    by (simp add: call_send_def xdrmem_put_def H_def L_def Let_def split: sum.splits)
  show ?thesis
  proof (cases r1)
    case (Inl e)
    with cs assms have "w' = w1" by simp
    moreover have "L @ H @ a = concat (map written evs1) @ (t1 @ H @ a)"
      using e1(2) by simp
    ultimately show ?thesis using e1(1) unfolding L_def H_def by blast
  next
    case (Inr u)
    with cs assms have "really_write priv io (H @ a) w1 = (r, w')" by simp
    then obtain evs2 t2 where e2: "trace w' = trace w1 @ evs2"
      "H @ a = concat (map written evs2) @ t2"
      unfolding really_write_def by (blast dest: really_write_loop_sent)
    from Inr e1 have "L = concat (map written evs1)" by simp
    then have "L @ H @ a = concat (map written (evs1 @ evs2)) @ t2"
      using e2(2) by simp
    moreover have "trace w' = trace w @ (evs1 @ evs2)" using e1(1) e2(1) by simp
    ultimately show ?thesis unfolding L_def H_def by blast
  qed
qed

lemma sent_bytes_append: "trace w' = trace w @ evs \<Longrightarrow> sent_bytes w w' = concat (map written evs)"
  by (simp add: sent_bytes_def)

lemma call_sent:
  assumes "call E priv io proc_nr args rf w = (r, priv', w')"
  shows "request_serial (sent_bytes w w') = None
         \<or> request_serial (sent_bytes w w') = Some (counter priv)"
proof -
  define hdr where "hdr = \<lparr>prog = REMOTE_PROGRAM E, vers = REMOTE_PROTOCOL_VERSION E,
      proc = proc_nr, direction = REMOTE_CALL E, serial = counter priv, status = REMOTE_OK E\<rparr>"
  define p1 where "p1 = priv\<lparr>counter := counter priv + 1\<rparr>"
  obtain r1 w1 where s: "call_send E p1 io hdr args w = (r1, w1)"
    by (cases "call_send E p1 io hdr args w")
  then obtain evs1 l a t where e1: "trace w1 = trace w @ evs1"
    "xdr_u_int_enc l @ xdr_remote_message_header_enc hdr @ a = concat (map written evs1) @ t"
    by (blast dest: call_send_sent)
  have "\<exists>evs2. trace w' = trace w1 @ evs2 \<and> concat (map written evs2) = []"
  proof (cases r1)
    case (Inl e)
    with assms s have "w' = w1"
      by (simp add: call_def call_serial_def Let_def hdr_def p1_def)
    then show ?thesis by (intro exI [of _ "[]"]) simp
  next
    case (Inr u)
    with assms s obtain r2 where
      "call_receive E p1 io proc_nr (counter priv) rf w1 = (r2, w')"
      by (auto simp: call_def call_serial_def Let_def hdr_def p1_def split: prod.splits)
    then show ?thesis by (blast dest: call_receive_sent)
  qed
  then obtain evs2 where e2: "trace w' = trace w1 @ evs2" "concat (map written evs2) = []"
    by blast
  have "trace w' = trace w @ (evs1 @ evs2)" using e1(1) e2(1) by simp
  then have "sent_bytes w w' = concat (map written evs1)"
    using e2(2) by (simp add: sent_bytes_append)
  with request_serial_prefix [OF e1(2)] show ?thesis by (simp add: hdr_def)
qed

lemma call_accepting:
  assumes "wr_script w = []" and "marshalled E args"
    and "call E priv io proc_nr args rf w = (r, priv', w')"
  shows "request_serial (sent_bytes w w') = Some (counter priv) \<and> wr_script w' = []"
proof -
  from assms(2) obtain a where a: "args = Some a" "24 + int (length a) \<le> REMOTE_MESSAGE_MAX E"
    by (auto simp: marshalled_def split: option.splits)
  define hdr where "hdr = \<lparr>prog = REMOTE_PROGRAM E, vers = REMOTE_PROTOCOL_VERSION E,
      proc = proc_nr, direction = REMOTE_CALL E, serial = counter priv, status = REMOTE_OK E\<rparr>"
  define p1 where "p1 = priv\<lparr>counter := counter priv + 1\<rparr>"
  define H where "H = xdr_remote_message_header_enc hdr"
  define L where "L = xdr_u_int_enc (word_of_nat (length (H @ a)) + 4)"
  define w1 where "w1 = w\<lparr>trace := trace w @ [EvWrite L, EvWrite (H @ a)]\<rparr>"
  have len: "length H = 24"
    by (simp add: H_def xdr_remote_message_header_enc_def xdr_u_int_enc_def)
  have s: "call_send E p1 io hdr args w = (Inr (), w1)"
    using a assms(1) len
    by (simp add: call_send_def xdrmem_put_def really_write_def really_write_loop_accepting
          H_def [symmetric] L_def w1_def Let_def)
  with assms(3) obtain r2 where
    "call_receive E p1 io proc_nr (counter priv) rf w1 = (r2, w')"
    by (auto simp: call_def call_serial_def Let_def hdr_def p1_def split: prod.splits)
  then obtain evs2 where e2: "trace w' = trace w1 @ evs2" "concat (map written evs2) = []"
    "wr_script w' = wr_script w1"
    by (blast dest: call_receive_sent)
  have "trace w' = trace w @ ([EvWrite L, EvWrite (H @ a)] @ evs2)"
    using e2(1) by (simp add: w1_def)
  then have "sent_bytes w w' = L @ H @ a"
    using e2(2) by (simp add: sent_bytes_append)
  then have "request_serial (sent_bytes w w') = Some (serial hdr)"
    by (simp add: L_def H_def request_serial_frame)
  moreover have "wr_script w' = []" using e2(3) assms(1) by (simp add: w1_def)
  ultimately show ?thesis by (simp add: hdr_def)
qed


lemma calls_Cons:
  assumes "call E priv io proc_nr args rf w = (r, priv', w')"
  shows "fst (calls E priv ((io, proc_nr, args, rf) # reqs) w) =
           request_serial (sent_bytes w w') # fst (calls E priv' reqs w')"
  using assms by (simp split: prod.splits)

lemma calls_sent:
  "length (fst (calls E priv reqs w)) = length reqs
   \<and> (\<forall>i<length reqs.
         fst (calls E priv reqs w) ! i = None
         \<or> fst (calls E priv reqs w) ! i = Some (counter priv + word_of_nat i))"
proof (induction reqs arbitrary: priv w)
  case Nil
  then show ?case by simp
next
  case (Cons req reqs)
  obtain io proc_nr args rf where req: "req = (io, proc_nr, args, rf)"
    by (cases req)
  obtain r priv' w' where c: "call E priv io proc_nr args rf w = (r, priv', w')"
    by (cases "call E priv io proc_nr args rf w")
  then have p: "counter priv' = counter priv + 1"
    by (auto dest: call_counter)
  note h = call_sent [OF c]
  note u = calls_Cons [OF c, of reqs]
  have ih: "length (fst (calls E priv' reqs w')) = length reqs"
    "\<And>i. i < length reqs \<Longrightarrow>
       fst (calls E priv' reqs w') ! i = None
       \<or> fst (calls E priv' reqs w') ! i = Some (counter priv + word_of_nat (Suc i))"
    using Cons.IH [of priv' w'] p by (auto simp: ac_simps)
  show ?case
  proof (intro conjI allI impI)
    show "length (fst (calls E priv (req # reqs) w)) = length (req # reqs)"
      unfolding req u using ih(1) by simp
  next
    fix i
    assume "i < length (req # reqs)"
    then show "fst (calls E priv (req # reqs) w) ! i = None
         \<or> fst (calls E priv (req # reqs) w) ! i = Some (counter priv + word_of_nat i)"
      unfolding req u using h ih(2) by (cases i) auto
  qed
qed

lemma calls_accepting:
  "wr_script w = [] \<Longrightarrow> \<forall>req\<in>set reqs. marshalled E (fst (snd (snd req))) \<Longrightarrow>
   fst (calls E priv reqs w) = map (\<lambda>i. Some (counter priv + word_of_nat i)) [0..<length reqs]"
proof (induction reqs arbitrary: priv w)
  case Nil
  then show ?case by simp
next
  case (Cons req reqs)
  obtain io proc_nr args rf where req: "req = (io, proc_nr, args, rf)"
    by (cases req)
  obtain r priv' w' where c: "call E priv io proc_nr args rf w = (r, priv', w')"
    by (cases "call E priv io proc_nr args rf w")
  then have p: "counter priv' = counter priv + 1"
    by (auto dest: call_counter)
  have m: "marshalled E args" using Cons.prems(2) req by simp
  note h = call_accepting [OF Cons.prems(1) m c]
  have "fst (calls E priv (req # reqs) w) =
          Some (counter priv) # fst (calls E priv' reqs w')"
    unfolding req calls_Cons [OF c] using h by simp
  also have "\<dots> = Some (counter priv)
               # map (\<lambda>i. Some (counter priv + word_of_nat (Suc i))) [0..<length reqs]"
    using Cons.IH [of w' priv'] h Cons.prems(2) p by (simp add: add.assoc add.commute)
  also have "\<dots> = map (\<lambda>i. Some (counter priv + word_of_nat i)) [0..<length (req # reqs)]"
    by (simp add: upt_conv_Cons map_Suc_upt [symmetric] del: upt_Suc)
  finally show ?case .
qed

lemma sint_word_of_nat_32:
  "n < 2 ^ 31 \<Longrightarrow> sint (word_of_nat n :: 32 word) = int n"
  by (simp add: signed_of_nat signed_take_bit_int_eq_self)

lemma sint_add_word_of_nat:
  fixes c :: "32 word"
  assumes "0 \<le> sint c" and "sint c + int i < 2 ^ 31"
  shows "sint (c + word_of_nat i) = sint c + int i"
proof -
  have i: "i < 2 ^ 31" using assms by (simp add: nat_less_iff [symmetric] flip: of_nat_less_iff)
  then have "sint (word_of_nat i :: 32 word) = int i" by (rule sint_word_of_nat_32)
  then have "sint (c + word_of_nat i) = signed_take_bit 31 (sint c + int i)"
    by (simp add: sint_word_ariths)
  also have "\<dots> = sint c + int i"
    using assms by (simp add: signed_take_bit_int_eq_self)
  finally show ?thesis .
qed

text \<open>
  C5 as stated fails: the counter is a 32-bit \<open>int\<close>, so the serials of n calls are not
  \<open>0, 1, ..., n-1\<close> for every n, nor strictly increasing. On the handle that \<open>remoteOpen\<close>
  installs (its own call took serial 0, the counter is 1), make \<open>2^31\<close> further calls:
  the last but one goes out with serial 2147483647, and the last with serial -2147483648.
\<close>

theorem call_serials_wrap_counterexample:
  "map_option sint
     (fst (calls example_env example_priv
             (replicate (2 ^ 31) (False, 4, Some [], xdr_void)) (peer [])) ! (2 ^ 31 - 2))
     = Some 2147483647
   \<and> map_option sint
     (fst (calls example_env example_priv
             (replicate (2 ^ 31) (False, 4, Some [], xdr_void)) (peer [])) ! (2 ^ 31 - 1))
     = Some (- 2147483648)"
proof -
  define n :: nat where "n = 2 ^ 31"
  define reqs :: "(bool \<times> 32 word \<times> byte list option \<times> (byte list \<Rightarrow> unit option)) list"
    where "reqs = replicate n (False, 4, Some [], xdr_void)"
  have m: "marshalled example_env (Some [])"
    by (simp add: marshalled_def example_env_def)
  have "\<forall>req\<in>set reqs. marshalled example_env (fst (snd (snd req)))"
    using m by (simp add: reqs_def)
  moreover have "wr_script (peer []) = []" by (simp add: peer_def)
  ultimately have c: "fst (calls example_env example_priv reqs (peer [])) =
      map (\<lambda>i. Some (counter example_priv + word_of_nat i)) [0..<n]"
    using calls_accepting [of "peer []" reqs example_env example_priv] by (simp add: reqs_def)
  have a: "fst (calls example_env example_priv reqs (peer [])) ! (n - 2) =
             Some (1 + word_of_nat (n - 2))"
    unfolding c by (simp add: n_def example_priv_def)
  have b: "fst (calls example_env example_priv reqs (peer [])) ! (n - 1) =
             Some (1 + word_of_nat (n - 1))"
    unfolding c by (simp add: n_def example_priv_def)
  have "map_option sint (fst (calls example_env example_priv reqs (peer [])) ! (n - 2))
          = Some 2147483647"
    unfolding a by (simp add: n_def)
  moreover have "map_option sint (fst (calls example_env example_priv reqs (peer [])) ! (n - 1))
          = Some (- 2147483648)"
    unfolding b by (simp add: n_def)
  ultimately show ?thesis unfolding reqs_def n_def by simp
qed

text \<open>
  C5, amended: the private data that \<open>remoteOpen\<close> starts from has counter 0, and a
  successful \<open>remoteOpen\<close>, having made the first call, installs private data whose
  counter is 1. Every call leaves the counter advanced by one, whatever its outcome, and
  a request header that goes out carries the counter's value before the call as its serial;
  it does go out when the arguments are marshalled and the transport accepts the writes. So
  on one connection the i-th call of any sequence carries the first counter plus i, in
  32-bit arithmetic, if its header goes out at all; and when every request goes out, and
  the counter starts at \<open>c \<ge> 0\<close> and \<open>c + n\<close> does not exceed \<open>2^31\<close>, the serials of the n
  calls are the C integers \<open>c, c+1, ..., c+n-1\<close>: strictly increasing and dense, from 0
  for the sequence that begins with the call of \<open>remoteOpen\<close>.
\<close>

theorem call_serials_dense:
  "counter initial_private_data = 0
   \<and> (call E priv in_open proc_nr args ret_filter w = (r, priv', w') \<longrightarrow>
        priv' = priv\<lparr>counter := counter priv + 1\<rparr>
        \<and> (request_serial (sent_bytes w w') = None
             \<or> request_serial (sent_bytes w w') = Some (counter priv))
        \<and> (wr_script w = [] \<and> marshalled E args \<longrightarrow>
               request_serial (sent_bytes w w') = Some (counter priv)))
   \<and> length (fst (calls E cp reqs cw)) = length reqs
   \<and> (\<forall>i<length reqs.
         fst (calls E cp reqs cw) ! i = None
         \<or> fst (calls E cp reqs cw) ! i = Some (counter cp + word_of_nat i))
   \<and> (wr_script cw = [] \<and> (\<forall>req\<in>set reqs. marshalled E (fst (snd (snd req)))) \<longrightarrow>
        fst (calls E cp reqs cw) =
          map (\<lambda>i. Some (counter cp + word_of_nat i)) [0..<length reqs]
        \<and> (0 \<le> sint (counter cp) \<and> sint (counter cp) + int (length reqs) \<le> 2 ^ 31 \<longrightarrow>
             map (map_option sint) (fst (calls E cp reqs cw)) =
               map (\<lambda>i. Some (sint (counter cp) + int i)) [0..<length reqs]))
   \<and> (remoteOpen E conn uri flags ow = ((VIR_DRV_OPEN_SUCCESS, errs), conn', ow') \<longrightarrow>
        (\<exists>p. privateData conn' = Some p \<and> counter p = 1))"
proof -
  have c1: "counter initial_private_data = 0" by (simp add: initial_private_data_def)
  have c2: "call E priv in_open proc_nr args ret_filter w = (r, priv', w') \<longrightarrow>
        priv' = priv\<lparr>counter := counter priv + 1\<rparr>
        \<and> (request_serial (sent_bytes w w') = None
             \<or> request_serial (sent_bytes w w') = Some (counter priv))
        \<and> (wr_script w = [] \<and> marshalled E args \<longrightarrow>
               request_serial (sent_bytes w w') = Some (counter priv))"
  proof (intro impI conjI)
    assume c: "call E priv in_open proc_nr args ret_filter w = (r, priv', w')"
    then show "priv' = priv\<lparr>counter := counter priv + 1\<rparr>" by (rule call_counter)
    from c show "request_serial (sent_bytes w w') = None
             \<or> request_serial (sent_bytes w w') = Some (counter priv)"
      by (rule call_sent)
    assume "wr_script w = [] \<and> marshalled E args"
    then have "wr_script w = []" "marshalled E args" by simp_all
    from call_accepting [OF this c]
    show "request_serial (sent_bytes w w') = Some (counter priv)" by simp
  qed
  note c3 = calls_sent [of E cp reqs cw]
  have c4: "wr_script cw = [] \<and> (\<forall>req\<in>set reqs. marshalled E (fst (snd (snd req)))) \<longrightarrow>
        fst (calls E cp reqs cw) =
          map (\<lambda>i. Some (counter cp + word_of_nat i)) [0..<length reqs]
        \<and> (0 \<le> sint (counter cp) \<and> sint (counter cp) + int (length reqs) \<le> 2 ^ 31 \<longrightarrow>
             map (map_option sint) (fst (calls E cp reqs cw)) =
               map (\<lambda>i. Some (sint (counter cp) + int i)) [0..<length reqs])"
  proof (intro impI conjI)
    assume a: "wr_script cw = [] \<and> (\<forall>req\<in>set reqs. marshalled E (fst (snd (snd req))))"
    then show e: "fst (calls E cp reqs cw) =
          map (\<lambda>i. Some (counter cp + word_of_nat i)) [0..<length reqs]"
      by (simp add: calls_accepting)
    assume b: "0 \<le> sint (counter cp) \<and> sint (counter cp) + int (length reqs) \<le> 2 ^ 31"
    have "map (map_option sint) (fst (calls E cp reqs cw)) =
            map (\<lambda>i. Some (sint (counter cp + word_of_nat i))) [0..<length reqs]"
      unfolding e by (simp add: comp_def)
    also have "\<dots> = map (\<lambda>i. Some (sint (counter cp) + int i)) [0..<length reqs]"
      using b by (intro map_cong refl) (simp add: sint_add_word_of_nat)
    finally show "map (map_option sint) (fst (calls E cp reqs cw)) =
               map (\<lambda>i. Some (sint (counter cp) + int i)) [0..<length reqs]" .
  qed
  have c5: "remoteOpen E conn uri flags ow = ((VIR_DRV_OPEN_SUCCESS, errs), conn', ow') \<longrightarrow>
        (\<exists>p. privateData conn' = Some p \<and> counter p = 1)"
    by (blast dest: remoteOpen_installs)
  show ?thesis
    by (intro conjI c1 c2 c4 c5 conjunct1 [OF c3] conjunct2 [OF c3])
qed

theorem call_serials_dense_witness:
  "fst (calls example_env (initial_private_data\<lparr>sock := 3\<rparr>)
          [(True, 1, Some [], xdr_void), (False, 3, Some [], xdr_void),
           (False, 2, Some [], xdr_void)] (peer [])) = [Some 0, Some 1, Some 2]
   \<and> map (map_option sint)
       (fst (calls example_env (initial_private_data\<lparr>sock := 3\<rparr>)
          [(True, 1, Some [], xdr_void), (False, 3, Some [], xdr_void),
           (False, 2, Some [], xdr_void)] (peer []))) = [Some 0, Some 1, Some 2]"
proof -
  define reqs :: "(bool \<times> 32 word \<times> byte list option \<times> (byte list \<Rightarrow> unit option)) list"
    where "reqs = [(True, 1, Some [], xdr_void), (False, 3, Some [], xdr_void),
                   (False, 2, Some [], xdr_void)]"
  define cp where "cp = initial_private_data\<lparr>sock := 3\<rparr>"
  have c: "counter cp = 0" by (simp add: cp_def initial_private_data_def)
  have m: "marshalled example_env (Some [])"
    by (simp add: marshalled_def example_env_def)
  have l: "length reqs = 3" by (simp add: reqs_def)
  have h: "wr_script (peer []) = [] \<and> (\<forall>req\<in>set reqs. marshalled example_env (fst (snd (snd req))))"
    using m by (simp add: peer_def reqs_def)
  have i: "0 \<le> sint (counter cp) \<and> sint (counter cp) + int (length reqs) \<le> 2 ^ 31"
    by (simp add: c l)
  have u: "[0..<3] = [0, 1, 2]" by (simp add: upt_conv_Cons)
  note t = call_serials_dense
             [where E = example_env and cp = cp and reqs = reqs and cw = "peer []"]
  note t5 = conjunct1 [OF conjunct2 [OF conjunct2 [OF conjunct2 [OF conjunct2 [OF t]]]]]
  note t5' = mp [OF t5 h]
  have "fst (calls example_env cp reqs (peer [])) =
          map (\<lambda>i. Some (counter cp + word_of_nat i)) [0..<length reqs]"
    "map (map_option sint) (fst (calls example_env cp reqs (peer []))) =
               map (\<lambda>i. Some (sint (counter cp) + int i)) [0..<length reqs]"
    by (rule conjunct1 [OF t5'], rule mp [OF conjunct2 [OF t5'] i])
  then show ?thesis
    unfolding l c u by (simp add: reqs_def cp_def)
qed

section \<open>Properties of the driver operations\<close>

text \<open>
  C2 does not hold of the code: when the close RPC fails, \<open>remoteClose\<close> returns at once.
  On a TLS connection with a cached type string whose peer has closed the stream, the
  call fails with "socket closed unexpectedly" and the trace ends with the failed read:
  no TLS bye, no close of the socket, no free of the type string. When the RPC succeeds,
  the three steps follow it in the order bye, close, free.
\<close>

theorem remoteClose_failed_call_skips_teardown:
  "remoteClose example_env
     (open_connection (example_priv\<lparr>uses_tls := True, session := Some 0, type := Some ''QEMU''\<rparr>))
     (peer []) =
   (Fail (- 1) (error True VIR_ERR_RPC ''socket closed unexpectedly''),
    open_connection
      (example_priv\<lparr>uses_tls := True, session := Some 0, type := Some ''QEMU'', counter := 2\<rparr>),
    \<lparr>rd_script = [], wr_script = [],
     trace = [EvWrite [0, 0, 0, 28],
              EvWrite [32, 0, 128, 134, 0, 0, 0, 1, 0, 0, 0, 2, 0, 0, 0, 0, 0, 0, 0, 1,
                       0, 0, 0, 0],
              EvRead 4 []]\<rparr>)
   \<and> remoteClose example_env
     (open_connection (example_priv\<lparr>uses_tls := True, session := Some 0, type := Some ''QEMU''\<rparr>))
     (peer [RdBytes (reply_frame 2 1 0 [])]) =
   (Return 0,
    open_connection
      (example_priv\<lparr>uses_tls := True, session := Some 0, type := Some ''QEMU'', counter := 2\<rparr>),
    \<lparr>rd_script = [], wr_script = [],
     trace = [EvWrite [0, 0, 0, 28],
              EvWrite [32, 0, 128, 134, 0, 0, 0, 1, 0, 0, 0, 2, 0, 0, 0, 0, 0, 0, 0, 1,
                       0, 0, 0, 0],
              EvRead 4 [0, 0, 0, 28],
              EvRead 24 [32, 0, 128, 134, 0, 0, 0, 1, 0, 0, 0, 2, 0, 0, 0, 1, 0, 0, 0, 1,
                         0, 0, 0, 0],
              EvBye 0, EvClose 3, EvFree ''QEMU'']\<rparr>)"
  by (simp add: remoteClose_def GET_PRIVATE_def open_connection_def MAGIC_def DEAD_def
        call_def call_serial_def call_send_def call_receive_def call_reply_def call_status_def
        io_eval xdr_eval reply_frame_def gnutls_bye_def close_def free_def
        example_env_def example_priv_def Let_def)

lemma GET_PRIVATE_magic:
  assumes "privateData conn = Some priv"
    and "GET_PRIVATE conn retcode body w = (r, conn', w')"
    and "\<And>r p w'. body priv w = (r, p, w') \<Longrightarrow> magic p = magic priv"
  shows "\<exists>p. privateData conn' = Some p \<and> magic p = magic priv"
  using assms by (auto simp: GET_PRIVATE_def split: if_splits prod.splits)

lemma run_op_magic:
  assumes "privateData conn = Some priv" and "run_op E op conn w = (r, conn', w')"
  shows "\<exists>p. privateData conn' = Some p \<and> magic p = magic priv"
proof (cases op)
  case OpClose
  with assms show ?thesis
    by (auto simp: remoteClose_def Let_def elim!: GET_PRIVATE_magic [rotated]
             dest!: call_counter split: prod.splits sum.splits)
next
  case OpType
  with assms show ?thesis
    by (auto simp: remoteType_def elim!: GET_PRIVATE_magic [rotated]
             dest!: call_counter split: prod.splits sum.splits option.splits)
next
  case (OpVersion h)
  with assms show ?thesis
    by (auto simp: remoteVersion_def elim!: GET_PRIVATE_magic [rotated]
             dest!: call_counter split: prod.splits sum.splits)
next
  case (OpListDomains m)
  with assms show ?thesis
    by (auto simp: remoteListDomains_def elim!: GET_PRIVATE_magic [rotated]
             dest!: call_counter split: prod.splits sum.splits if_splits)
next
  case OpNumOfDomains
  with assms show ?thesis
    by (auto simp: remoteNumOfDomains_def elim!: GET_PRIVATE_magic [rotated]
             dest!: call_counter split: prod.splits sum.splits)
next
  case OpNetworkClose
  with assms show ?thesis by (auto simp: remoteNetworkClose_def)
qed

lemma run_ops_magic:
  "privateData conn = Some priv \<Longrightarrow> run_ops E ops conn w = (conn', w') \<Longrightarrow>
   \<exists>p. privateData conn' = Some p \<and> magic p = magic priv"
proof (induction ops arbitrary: conn priv w)
  case Nil
  then show ?case by simp
next
  case (Cons op ops)
  obtain r c1 w1 where s: "run_op E op conn w = (r, c1, w1)"
    by (cases "run_op E op conn w")
  with Cons.prems(1) obtain p1 where p1: "privateData c1 = Some p1" "magic p1 = magic priv"
    by (blast dest: run_op_magic)
  from Cons.prems(2) s have "run_ops E ops c1 w1 = (conn', w')" by simp
  with Cons.IH [OF p1(1)] p1(2) show ?case by simp
qed

text \<open>
  C3 does not hold of the code: nothing ever puts a connection in the Closed state.
  \<open>GET_PRIVATE\<close> tests \<open>priv->magic == DEAD\<close>, but \<open>remoteClose\<close> does not store \<open>DEAD\<close>,
  and no other operation does. Open \<open>qemu+tcp://host/system\<close> against a peer that answers
  the open and the close request, then close the connection: \<open>remoteClose\<close> returns 0 and
  closes descriptor 3, and the private data still holds \<open>MAGIC\<close>. A \<open>remoteVersion\<close> on
  that handle is therefore not refused with the InvalidArg error "tried to use a closed
  or uninitialised handle": it goes on to the network and writes the length word of its
  request to the closed descriptor, and what it reports is the system error of that write.
  In general, after a successful \<open>remoteOpen\<close> and any sequence of operations, the
  private data of the connection holds \<open>MAGIC\<close>, never \<open>DEAD\<close>.
\<close>

theorem remoteClose_leaves_handle_open:
  "(case remoteOpen example_env \<lparr>driver = Some ''remote'', privateData = None\<rparr>
           (Some \<lparr>scheme = Some ''qemu+tcp'', server = Some ''host'', user = None, port = 0,
                  path = Some ''/system'', query = None\<rparr>) 0
           \<lparr>rd_script = [RdBytes (reply_frame 1 0 0 []), RdBytes (reply_frame 2 1 0 [])],
            wr_script = [WrAccept 4, WrAccept 28, WrAccept 4, WrAccept 24,
                         WrError ''Bad file descriptor''],
            trace = []\<rparr> of
      (opened, conn1, w1) \<Rightarrow>
    (case remoteClose example_env conn1 w1 of
      (closed, conn2, w2) \<Rightarrow>
    (case remoteVersion example_env conn2 True w2 of
      (version, conn3, w3) \<Rightarrow>
        opened = (VIR_DRV_OPEN_SUCCESS, [])
        \<and> closed = Return 0
        \<and> map_option magic (privateData conn2) = Some MAGIC
        \<and> version = Fail (- 1, None) (error True VIR_ERR_SYSTEM_ERROR ''Bad file descriptor'')
        \<and> trace w3 =
            [EvWrite [0, 0, 0, 32],
             EvWrite [32, 0, 128, 134, 0, 0, 0, 1, 0, 0, 0, 1, 0, 0, 0, 0, 0, 0, 0, 0,
                      0, 0, 0, 0, 0, 0, 0, 0],
             EvRead 4 [0, 0, 0, 28],
             EvRead 24 [32, 0, 128, 134, 0, 0, 0, 1, 0, 0, 0, 1, 0, 0, 0, 1, 0, 0, 0, 0,
                        0, 0, 0, 0],
             EvWrite [0, 0, 0, 28],
             EvWrite [32, 0, 128, 134, 0, 0, 0, 1, 0, 0, 0, 2, 0, 0, 0, 0, 0, 0, 0, 1,
                      0, 0, 0, 0],
             EvRead 4 [0, 0, 0, 28],
             EvRead 24 [32, 0, 128, 134, 0, 0, 0, 1, 0, 0, 0, 2, 0, 0, 0, 1, 0, 0, 0, 1,
                        0, 0, 0, 0],
             EvClose 3,
             EvWriteFailed [0, 0, 0, 28]])))
   \<and> MAGIC \<noteq> DEAD
   \<and> (remoteOpen E conn uri flags w = ((VIR_DRV_OPEN_SUCCESS, errs), conn', w') \<longrightarrow>
        (\<exists>p. privateData (fst (run_ops E ops conn' w'')) = Some p \<and> magic p = MAGIC))"
proof (intro conjI impI)
  show "MAGIC \<noteq> DEAD" by (simp add: MAGIC_def DEAD_def)
next
  assume "remoteOpen E conn uri flags w = ((VIR_DRV_OPEN_SUCCESS, errs), conn', w')"
  then obtain p where p: "privateData conn' = Some p" "magic p = MAGIC"
    by (blast dest: remoteOpen_installs)
  obtain c x where "run_ops E ops conn' w'' = (c, x)"
    by (cases "run_ops E ops conn' w''")
  with run_ops_magic [OF p(1) this] p(2)
  show "\<exists>p. privateData (fst (run_ops E ops conn' w'')) = Some p \<and> magic p = MAGIC"
    by auto
next
  show "(case remoteOpen example_env \<lparr>driver = Some ''remote'', privateData = None\<rparr>
           (Some \<lparr>scheme = Some ''qemu+tcp'', server = Some ''host'', user = None, port = 0,
                  path = Some ''/system'', query = None\<rparr>) 0
           \<lparr>rd_script = [RdBytes (reply_frame 1 0 0 []), RdBytes (reply_frame 2 1 0 [])],
            wr_script = [WrAccept 4, WrAccept 28, WrAccept 4, WrAccept 24,
                         WrError ''Bad file descriptor''],
            trace = []\<rparr> of
      (opened, conn1, w1) \<Rightarrow>
    (case remoteClose example_env conn1 w1 of
      (closed, conn2, w2) \<Rightarrow>
    (case remoteVersion example_env conn2 True w2 of
      (version, conn3, w3) \<Rightarrow>
        opened = (VIR_DRV_OPEN_SUCCESS, [])
        \<and> closed = Return 0
        \<and> map_option magic (privateData conn2) = Some MAGIC
        \<and> version = Fail (- 1, None) (error True VIR_ERR_SYSTEM_ERROR ''Bad file descriptor'')
        \<and> trace w3 =
            [EvWrite [0, 0, 0, 32],
             EvWrite [32, 0, 128, 134, 0, 0, 0, 1, 0, 0, 0, 1, 0, 0, 0, 0, 0, 0, 0, 0,
                      0, 0, 0, 0, 0, 0, 0, 0],
             EvRead 4 [0, 0, 0, 28],
             EvRead 24 [32, 0, 128, 134, 0, 0, 0, 1, 0, 0, 0, 1, 0, 0, 0, 1, 0, 0, 0, 0,
                        0, 0, 0, 0],
             EvWrite [0, 0, 0, 28],
             EvWrite [32, 0, 128, 134, 0, 0, 0, 1, 0, 0, 0, 2, 0, 0, 0, 0, 0, 0, 0, 1,
                      0, 0, 0, 0],
             EvRead 4 [0, 0, 0, 28],
             EvRead 24 [32, 0, 128, 134, 0, 0, 0, 1, 0, 0, 0, 2, 0, 0, 0, 1, 0, 0, 0, 1,
                        0, 0, 0, 0],
             EvClose 3,
             EvWriteFailed [0, 0, 0, 28]])))"
    by (simp add: remoteOpen_def remoteOpen_prepare_def remoteOpen_dial_def
        get_transport_from_scheme_def select_transport_def c_tolower_def query_parse_def
        example_env_def example_connect_def example_xmlSaveUri_def initial_private_data_def
        remoteClose_def remoteVersion_def GET_PRIVATE_def close_def
        call_def call_serial_def call_send_def call_receive_def call_reply_def call_status_def
        really_read_def really_write_def really_read_loop.simps really_write_loop.simps
        sys_read_def sys_write_def log_def error_def
        xdr_eval reply_frame_def MAGIC_def DEAD_def Let_def)
qed

theorem remoteClose_leaves_handle_open_witness:
  "remoteOpen example_env \<lparr>driver = Some ''remote'', privateData = None\<rparr>
     (Some \<lparr>scheme = Some ''qemu+unix'', server = None, user = None, port = 0,
            path = Some ''/system'', query = None\<rparr>) 1 (peer [RdBytes (reply_frame 1 0 0 [])]) =
   ((VIR_DRV_OPEN_SUCCESS, []), open_connection example_priv,
    \<lparr>rd_script = [], wr_script = [],
     trace = [EvWrite [0, 0, 0, 32],
              EvWrite [32, 0, 128, 134, 0, 0, 0, 1, 0, 0, 0, 1, 0, 0, 0, 0, 0, 0, 0, 0,
                       0, 0, 0, 0, 0, 0, 0, 1],
              EvRead 4 [0, 0, 0, 28],
              EvRead 24 [32, 0, 128, 134, 0, 0, 0, 1, 0, 0, 0, 1, 0, 0, 0, 1, 0, 0, 0, 0,
                         0, 0, 0, 0]]\<rparr>)
   \<and> (\<exists>p. privateData
             (fst (run_ops example_env [OpClose, OpNumOfDomains, OpClose]
                     (open_connection example_priv) (peer [RdBytes (reply_frame 2 1 0 [])])))
           = Some p \<and> magic p = MAGIC)"
proof -
  have o: "remoteOpen example_env \<lparr>driver = Some ''remote'', privateData = None\<rparr>
     (Some \<lparr>scheme = Some ''qemu+unix'', server = None, user = None, port = 0,
            path = Some ''/system'', query = None\<rparr>) 1 (peer [RdBytes (reply_frame 1 0 0 [])]) =
   ((VIR_DRV_OPEN_SUCCESS, []), open_connection example_priv,
    \<lparr>rd_script = [], wr_script = [],
     trace = [EvWrite [0, 0, 0, 32],
              EvWrite [32, 0, 128, 134, 0, 0, 0, 1, 0, 0, 0, 1, 0, 0, 0, 0, 0, 0, 0, 0,
                       0, 0, 0, 0, 0, 0, 0, 1],
              EvRead 4 [0, 0, 0, 28],
              EvRead 24 [32, 0, 128, 134, 0, 0, 0, 1, 0, 0, 0, 1, 0, 0, 0, 1, 0, 0, 0, 0,
                         0, 0, 0, 0]]\<rparr>)"
    by (simp add: remoteOpen_def remoteOpen_prepare_def remoteOpen_dial_def
        get_transport_from_scheme_def select_transport_def c_tolower_def query_parse_def
        example_env_def example_connect_def example_xmlSaveUri_def initial_private_data_def
        open_connection_def example_priv_def
        call_def call_serial_def call_send_def call_receive_def call_reply_def call_status_def
        io_eval xdr_eval reply_frame_def MAGIC_def DEAD_def Let_def)
  have "\<exists>p. privateData
             (fst (run_ops example_env [OpClose, OpNumOfDomains, OpClose]
                     (open_connection example_priv) (peer [RdBytes (reply_frame 2 1 0 [])])))
           = Some p \<and> magic p = MAGIC"
    using remoteClose_leaves_handle_open
            [where E = example_env and ops = "[OpClose, OpNumOfDomains, OpClose]"
               and w'' = "peer [RdBytes (reply_frame 2 1 0 [])]"] o
    by blast
  with o show ?thesis by blast
qed

section \<open>Case-insensitive matching and the default server\<close>

lemma of_char_eq_0_iff: "(of_char c :: nat) = 0 \<longleftrightarrow> c = NUL"
proof -
  have "(of_char c :: nat) = 0 \<longleftrightarrow> (of_char c :: nat) = of_char NUL"
    by (simp add: NUL_def)
  then show ?thesis by (simp only: of_char_eq_iff)
qed

lemma c_tolower_eq_NUL_iff: "c_tolower c = NUL \<longleftrightarrow> c = NUL"
proof (cases "65 \<le> (of_char c :: nat) \<and> (of_char c :: nat) \<le> 90")
  case True
  then have "(of_char (c_tolower c) :: nat) = of_char c + 32"
    by (simp add: c_tolower_def)
  with True show ?thesis
    using of_char_eq_0_iff [of "c_tolower c"] of_char_eq_0_iff [of c] by auto
next
  case False
  then show ?thesis by (auto simp: c_tolower_def Let_def)
qed

lemma c_tolower_idem: "c_tolower (c_tolower c) = c_tolower c"
proof (cases "65 \<le> (of_char c :: nat) \<and> (of_char c :: nat) \<le> 90")
  case True
  define n where "n = (of_char c :: nat)"
  have e: "c_tolower c = char_of (n + 32)"
    using True by (simp add: c_tolower_def n_def)
  have "(of_char (char_of (n + 32)) :: nat) = n + 32"
    using True by (simp add: n_def)
  then have "c_tolower (char_of (n + 32)) = char_of (n + 32)"
    using True by (simp add: c_tolower_def Let_def n_def)
  with e show ?thesis by simp
next
  case False
  then show ?thesis by (auto simp: c_tolower_def Let_def)
qed

lemma lowercase_idem: "lowercase (lowercase s) = lowercase s"
  by (simp add: lowercase_def c_tolower_idem)

lemma NUL_lowercase: "NUL \<in> set (lowercase s) \<longleftrightarrow> NUL \<in> set s"
proof -
  have "NUL = c_tolower x \<longleftrightarrow> x = NUL" for x
    using c_tolower_eq_NUL_iff [of x] by auto
  then show ?thesis by (auto simp: lowercase_def image_iff)
qed

lemma strcasecmp_eq_0_iff:
  "NUL \<notin> set a \<Longrightarrow> NUL \<notin> set b \<Longrightarrow> strcasecmp a b = 0 \<longleftrightarrow> lowercase a = lowercase b"
proof (induction a b rule: strcasecmp.induct)
  case 1
  then show ?case by (simp add: lowercase_def)
next
  case (2 b bs)
  then show ?case by (auto simp: lowercase_def of_char_eq_0_iff c_tolower_eq_NUL_iff)
next
  case (3 a as)
  then show ?case by (auto simp: lowercase_def of_char_eq_0_iff c_tolower_eq_NUL_iff)
next
  case (4 a as b bs)
  then show ?case by (auto simp: lowercase_def)
qed

lemma literal_keys:
  "NUL \<notin> set ''tls''" "NUL \<notin> set ''unix''" "NUL \<notin> set ''ssh''" "NUL \<notin> set ''ext''"
  "NUL \<notin> set ''tcp''" "NUL \<notin> set ''name''" "NUL \<notin> set ''command''"
  "NUL \<notin> set ''socket''" "NUL \<notin> set ''netcat''" "NUL \<notin> set ''no_verify''"
  "lowercase ''tls'' = ''tls''" "lowercase ''unix'' = ''unix''" "lowercase ''ssh'' = ''ssh''"
  "lowercase ''ext'' = ''ext''" "lowercase ''tcp'' = ''tcp''" "lowercase ''name'' = ''name''"
  "lowercase ''command'' = ''command''" "lowercase ''socket'' = ''socket''"
  "lowercase ''netcat'' = ''netcat''" "lowercase ''no_verify'' = ''no_verify''"
  by (simp_all add: NUL_def lowercase_def c_tolower_def)

lemma strcasecmp_keys:
  assumes "NUL \<notin> set t"
  shows "strcasecmp t ''tls'' = 0 \<longleftrightarrow> lowercase t = ''tls''"
    and "strcasecmp t ''unix'' = 0 \<longleftrightarrow> lowercase t = ''unix''"
    and "strcasecmp t ''ssh'' = 0 \<longleftrightarrow> lowercase t = ''ssh''"
    and "strcasecmp t ''ext'' = 0 \<longleftrightarrow> lowercase t = ''ext''"
    and "strcasecmp t ''tcp'' = 0 \<longleftrightarrow> lowercase t = ''tcp''"
    and "strcasecmp t ''name'' = 0 \<longleftrightarrow> lowercase t = ''name''"
    and "strcasecmp t ''command'' = 0 \<longleftrightarrow> lowercase t = ''command''"
    and "strcasecmp t ''socket'' = 0 \<longleftrightarrow> lowercase t = ''socket''"
    and "strcasecmp t ''netcat'' = 0 \<longleftrightarrow> lowercase t = ''netcat''"
    and "strcasecmp t ''no_verify'' = 0 \<longleftrightarrow> lowercase t = ''no_verify''"
  using strcasecmp_eq_0_iff [OF assms literal_keys(1)]
    strcasecmp_eq_0_iff [OF assms literal_keys(2)]
    strcasecmp_eq_0_iff [OF assms literal_keys(3)]
    strcasecmp_eq_0_iff [OF assms literal_keys(4)]
    strcasecmp_eq_0_iff [OF assms literal_keys(5)]
    strcasecmp_eq_0_iff [OF assms literal_keys(6)]
    strcasecmp_eq_0_iff [OF assms literal_keys(7)]
    strcasecmp_eq_0_iff [OF assms literal_keys(8)]
    strcasecmp_eq_0_iff [OF assms literal_keys(9)]
    strcasecmp_eq_0_iff [OF assms literal_keys(10)]
  by (simp_all only: literal_keys)

lemma select_transport_lowercase:
  assumes "NUL \<notin> set t"
  shows "select_transport (Some t) =
           (if lowercase t = ''tls'' then Inr trans_tls
            else if lowercase t = ''unix'' then Inr trans_unix
            else if lowercase t = ''ssh'' then Inr trans_ssh
            else if lowercase t = ''ext'' then Inr trans_ext
            else if lowercase t = ''tcp'' then Inr trans_tcp
            else Inl (error False VIR_ERR_INVALID_ARG
                   ''remote_open: transport in URL not recognised (should be tls|unix|ssh|ext|tcp)''))"
  using strcasecmp_keys [OF assms] by (simp add: select_transport_def)

lemma extract_var_lowercase:
  assumes "NUL \<notin> set (name var)"
  shows "extract_var var v =
           (if lowercase (name var) = ''name'' then
              (var\<lparr>ignore := True\<rparr>, v\<lparr>o_name := Some (value var)\<rparr>)
            else if lowercase (name var) = ''command'' then
              (var\<lparr>ignore := True\<rparr>, v\<lparr>o_command := Some (value var)\<rparr>)
            else if lowercase (name var) = ''socket'' then
              (var\<lparr>ignore := True\<rparr>, v\<lparr>o_sockname := Some (value var)\<rparr>)
            else if lowercase (name var) = ''netcat'' then
              (var\<lparr>ignore := True\<rparr>, v\<lparr>o_netcat := Some (value var)\<rparr>)
            else if lowercase (name var) = ''no_verify'' then
              (var\<lparr>ignore := True\<rparr>, v\<lparr>o_no_verify := atoi (value var)\<rparr>)
            else (var, v))"
  using strcasecmp_keys [OF assms] by (simp add: extract_var_def)

lemma extract_var_ignore:
  "NUL \<notin> set (name var) \<Longrightarrow>
   ignore (fst (extract_var var v)) \<longleftrightarrow> reserved_key (name var) \<or> ignore var"
  by (auto simp: extract_var_lowercase reserved_key_def)

text \<open>
  C9: transport matching and reserved-key matching in \<open>remoteOpen\<close> depend on the
  lower-cased string only. A transport suffix selects the transport its lower-case form
  names, so \<open>TLS\<close> selects TLS like \<open>tls\<close>; a query field is marked ignored exactly when
  its lower-cased name is a reserved key, its value then goes to the matching variable
  (\<open>NAME\<close> sets the name override) and \<open>query_create\<close> leaves it out of the query string
  forwarded to the server.
\<close>

theorem case_insensitive_matching:
  assumes "NUL \<notin> set t" and "NUL \<notin> set (name var)"
  shows "select_transport (Some t) = select_transport (Some (lowercase t))
         \<and> (lowercase t = ''tls'' \<longrightarrow> select_transport (Some t) = Inr trans_tls)
         \<and> (lowercase t = ''unix'' \<longrightarrow> select_transport (Some t) = Inr trans_unix)
         \<and> (lowercase t = ''ssh'' \<longrightarrow> select_transport (Some t) = Inr trans_ssh)
         \<and> (lowercase t = ''ext'' \<longrightarrow> select_transport (Some t) = Inr trans_ext)
         \<and> (lowercase t = ''tcp'' \<longrightarrow> select_transport (Some t) = Inr trans_tcp)
         \<and> select_transport (Some ''TLS'') = select_transport (Some ''tls'')
         \<and> select_transport (Some ''TLS'') = Inr trans_tls
         \<and> extract_var var v =
             (case extract_var (var\<lparr>name := lowercase (name var)\<rparr>) v of
                (var', v') \<Rightarrow> (var'\<lparr>name := name var\<rparr>, v'))
         \<and> (ignore (fst (extract_var var v)) \<longleftrightarrow> reserved_key (name var) \<or> ignore var)
         \<and> (lowercase (name var) = ''name'' \<longrightarrow>
              extract_var var v = (var\<lparr>ignore := True\<rparr>, v\<lparr>o_name := Some (value var)\<rparr>))
         \<and> (reserved_key (name var) \<longrightarrow>
              query_create_loop (fst (extract_var var v) # flds) sep buf =
              query_create_loop flds sep buf)"
proof -
  have nl: "NUL \<notin> set (lowercase t)" "NUL \<notin> set (lowercase (name var))"
    using assms by (simp_all add: NUL_lowercase)
  have a: "select_transport (Some t) = select_transport (Some (lowercase t))"
    by (simp only: select_transport_lowercase [OF assms(1)]
          select_transport_lowercase [OF nl(1)] lowercase_idem)
  have a': "lowercase t = k \<longrightarrow> select_transport (Some t) = Inr tr"
    if "k \<in> {''tls'', ''unix'', ''ssh'', ''ext'', ''tcp''}"
      and "tr = (if k = ''tls'' then trans_tls else if k = ''unix'' then trans_unix
                 else if k = ''ssh'' then trans_ssh else if k = ''ext'' then trans_ext
                 else trans_tcp)" for k tr
    using that by (auto simp: select_transport_lowercase [OF assms(1)])
  have b: "select_transport (Some ''TLS'') = Inr trans_tls"
    "select_transport (Some ''tls'') = Inr trans_tls"
    by (simp_all add: select_transport_def c_tolower_def)
  have nv: "NUL \<notin> set (name (var\<lparr>name := lowercase (name var)\<rparr>))"
    using nl(2) by simp
  have c: "extract_var var v =
             (case extract_var (var\<lparr>name := lowercase (name var)\<rparr>) v of
                (var', v') \<Rightarrow> (var'\<lparr>name := name var\<rparr>, v'))"
    by (simp add: extract_var_lowercase [OF assms(2)] extract_var_lowercase [OF nv]
          lowercase_idem)
  have d: "ignore (fst (extract_var var v)) \<longleftrightarrow> reserved_key (name var) \<or> ignore var"
    using assms(2) by (rule extract_var_ignore)
  have e: "lowercase (name var) = ''name'' \<longrightarrow>
              extract_var var v = (var\<lparr>ignore := True\<rparr>, v\<lparr>o_name := Some (value var)\<rparr>)"
    by (simp add: extract_var_lowercase [OF assms(2)])
  have f: "reserved_key (name var) \<longrightarrow>
              query_create_loop (fst (extract_var var v) # flds) sep buf =
              query_create_loop flds sep buf"
    using d by simp
  show ?thesis
    using a a' [of "''tls''" trans_tls] a' [of "''unix''" trans_unix] a' [of "''ssh''" trans_ssh]
      a' [of "''ext''" trans_ext] a' [of "''tcp''" trans_tcp] b c d e f
    by (intro conjI) simp_all
qed

theorem case_insensitive_matching_witness:
  "select_transport (Some ''TcP'') = Inr trans_tcp
   \<and> extract_var \<lparr>name = ''NAME'', value = ''qemu:///session'', ignore = False\<rparr>
        \<lparr>o_name = None, o_command = None, o_sockname = None, o_netcat = None,
         o_no_verify = 0\<rparr> =
       (\<lparr>name = ''NAME'', value = ''qemu:///session'', ignore = True\<rparr>,
        \<lparr>o_name = Some ''qemu:///session'', o_command = None, o_sockname = None,
         o_netcat = None, o_no_verify = 0\<rparr>)"
proof -
  have n: "NUL \<notin> set ''TcP''"
    "NUL \<notin> set (name \<lparr>name = ''NAME'', value = ''qemu:///session'', ignore = False\<rparr>)"
    by (simp_all add: NUL_def)
  have l: "lowercase ''TcP'' = ''tcp''"
    "lowercase (name \<lparr>name = ''NAME'', value = ''qemu:///session'', ignore = False\<rparr>) = ''name''"
    by (simp_all add: lowercase_def c_tolower_def char_of_def bit_Suc_0_iff)
  note t = case_insensitive_matching [OF n,
      where v = "\<lparr>o_name = None, o_command = None, o_sockname = None, o_netcat = None,
                  o_no_verify = 0\<rparr>"]
  have a: "lowercase ''TcP'' = ''tcp'' \<longrightarrow> select_transport (Some ''TcP'') = Inr trans_tcp"
    by (rule conjunct1 [OF conjunct2 [OF conjunct2 [OF conjunct2 [OF conjunct2
          [OF conjunct2 [OF t]]]]]])
  have b: "lowercase (name \<lparr>name = ''NAME'', value = ''qemu:///session'', ignore = False\<rparr>)
             = ''name'' \<longrightarrow>
           extract_var \<lparr>name = ''NAME'', value = ''qemu:///session'', ignore = False\<rparr>
             \<lparr>o_name = None, o_command = None, o_sockname = None, o_netcat = None,
              o_no_verify = 0\<rparr> =
           (\<lparr>name = ''NAME'', value = ''qemu:///session'', ignore = False\<rparr>\<lparr>ignore := True\<rparr>,
            \<lparr>o_name = None, o_command = None, o_sockname = None, o_netcat = None,
             o_no_verify = 0\<rparr>
              \<lparr>o_name := Some (value \<lparr>name = ''NAME'', value = ''qemu:///session'',
                                        ignore = False\<rparr>)\<rparr>)"
    by (rule conjunct1 [OF conjunct2 [OF conjunct2 [OF conjunct2 [OF conjunct2
          [OF conjunct2 [OF conjunct2 [OF conjunct2 [OF conjunct2 [OF conjunct2
          [OF conjunct2 [OF t]]]]]]]]]]])
  show ?thesis using a b l by simp
qed

text \<open>
  C10: a URI whose scheme has a transport suffix and which has no host is not declined by
  \<open>remoteOpen\<close>. When the transport is recognised (and, for ext, a command is given)
  \<open>remoteOpen\<close> reaches the connection switch, and there the server name is
  \<open>localhost\<close> and, the URI having no port, the port is the default of the transport.
  For \<open>qemu+tls:///\<close> it asks for a TCP connection with TLS to \<open>localhost\<close> on the TLS port.
\<close>

theorem transport_without_host:
  assumes "scheme uri = Some sch" and "CHR ''+'' \<in> set sch" and "server uri = None"
  shows "fst (fst (remoteOpen E conn (Some uri) flags w)) \<noteq> VIR_DRV_OPEN_DECLINED
         \<and> (\<forall>tr. select_transport (get_transport_from_scheme sch) = Inr tr
                  \<and> (tr = trans_ext \<longrightarrow>
                       o_command (snd (extract_vars (query_parse (query uri))
                          \<lparr>o_name = None, o_command = None, o_sockname = None,
                           o_netcat = None, o_no_verify = 0\<rparr>)) \<noteq> None) \<longrightarrow>
                (\<exists>p. remoteOpen_prepare E (Some uri) = Inr p \<and> p_transport p = tr))
         \<and> (\<forall>p. remoteOpen_prepare E (Some uri) = Inr p \<longrightarrow>
                p_server p = ''localhost''
                \<and> (port uri = 0 \<longrightarrow>
                     p_port p = (case p_transport p of
                                   trans_tls \<Rightarrow> Some (LIBVIRTD_TLS_PORT E)
                                 | trans_tcp \<Rightarrow> Some (LIBVIRTD_TCP_PORT E)
                                 | trans_ssh \<Rightarrow> Some ''22''
                                 | trans_unix \<Rightarrow> None
                                 | trans_ext \<Rightarrow> None)))
         \<and> (\<exists>p. remoteOpen_prepare E
                    (Some \<lparr>scheme = Some ''qemu+tls'', server = None, user = None, port = 0,
                           path = Some ''/'', query = None\<rparr>) = Inr p
                  \<and> remoteOpen_dial E p flags =
                      Some (DialTcp ''localhost'' (Some (LIBVIRTD_TLS_PORT E)) True 0))"
proof -
  have t: "get_transport_from_scheme sch \<noteq> None"
    using assms(2) by (simp add: get_transport_from_scheme_def xmlStrchr_takeWhile)
  have nd: "rc \<noteq> VIR_DRV_OPEN_DECLINED"
    if "remoteOpen_prepare E (Some uri) = Inl (rc, errs)" for rc errs
    using that assms(1) t
    by (auto simp: remoteOpen_prepare_def Let_def
             split: sum.splits prod.splits if_splits)
  have a: "fst (fst (remoteOpen E conn (Some uri) flags w)) \<noteq> VIR_DRV_OPEN_DECLINED"
  proof (cases "remoteOpen_prepare E (Some uri)")
    case (Inl r)
    then show ?thesis using nd [of "fst r" "snd r"] by (simp add: remoteOpen_def)
  next
    case (Inr p)
    then show ?thesis
      by (simp add: remoteOpen_def Let_def split: option.splits prod.splits sum.splits)
  qed
  have b: "\<exists>p. remoteOpen_prepare E (Some uri) = Inr p \<and> p_transport p = tr"
    if "select_transport (get_transport_from_scheme sch) = Inr tr"
      and "tr = trans_ext \<longrightarrow>
             o_command (snd (extract_vars (query_parse (query uri))
                \<lparr>o_name = None, o_command = None, o_sockname = None,
                 o_netcat = None, o_no_verify = 0\<rparr>)) \<noteq> None" for tr
    using that assms(1) t
    by (auto simp: remoteOpen_prepare_def Let_def split: prod.splits)
  have c: "p_server p = ''localhost''
           \<and> (port uri = 0 \<longrightarrow>
                 p_port p = (case p_transport p of
                               trans_tls \<Rightarrow> Some (LIBVIRTD_TLS_PORT E)
                             | trans_tcp \<Rightarrow> Some (LIBVIRTD_TCP_PORT E)
                             | trans_ssh \<Rightarrow> Some ''22''
                             | trans_unix \<Rightarrow> None
                             | trans_ext \<Rightarrow> None))"
    if "remoteOpen_prepare E (Some uri) = Inr p" for p
    using that assms(1,3)
    by (auto simp: remoteOpen_prepare_def Let_def
             split: sum.splits prod.splits if_splits transport.splits)
  have d: "\<exists>p. remoteOpen_prepare E
                    (Some \<lparr>scheme = Some ''qemu+tls'', server = None, user = None, port = 0,
                           path = Some ''/'', query = None\<rparr>) = Inr p
                  \<and> remoteOpen_dial E p flags =
                      Some (DialTcp ''localhost'' (Some (LIBVIRTD_TLS_PORT E)) True 0)"
    by (simp add: remoteOpen_prepare_def remoteOpen_dial_def get_transport_from_scheme_def
          select_transport_def c_tolower_def query_parse_def Let_def)
  show ?thesis using a b c d by blast
qed

theorem transport_without_host_witness:
  "fst (fst (remoteOpen example_env (open_connection example_priv)
        (Some \<lparr>scheme = Some ''qemu+tls'', server = None, user = None, port = 0,
               path = Some ''/'', query = None\<rparr>) 0 (peer []))) \<noteq> VIR_DRV_OPEN_DECLINED
   \<and> (\<exists>p. remoteOpen_prepare example_env
              (Some \<lparr>scheme = Some ''qemu+tls'', server = None, user = None, port = 0,
                     path = Some ''/'', query = None\<rparr>) = Inr p
            \<and> p_server p = ''localhost'' \<and> p_port p = Some ''16514'')"
proof -
  let ?u = "\<lparr>scheme = Some ''qemu+tls'', server = None, user = None, port = 0,
             path = Some ''/'', query = None\<rparr>"
  have h: "scheme ?u = Some ''qemu+tls''" "CHR ''+'' \<in> set ''qemu+tls''" "server ?u = None"
    by simp_all
  have pt: "LIBVIRTD_TLS_PORT example_env = ''16514''" by (simp add: example_env_def)
  note t = transport_without_host [OF h, where E = example_env and flags = 0]
  have a: "fst (fst (remoteOpen example_env (open_connection example_priv) (Some ?u) 0
             (peer []))) \<noteq> VIR_DRV_OPEN_DECLINED"
    by (rule conjunct1 [OF t])
  have st: "select_transport (get_transport_from_scheme ''qemu+tls'') = Inr trans_tls"
    by (simp add: get_transport_from_scheme_def select_transport_def c_tolower_def)
  from conjunct1 [OF conjunct2 [OF t [where conn = "open_connection example_priv" and w = "peer []"]]] st
  obtain p where p: "remoteOpen_prepare example_env (Some ?u) = Inr p" "p_transport p = trans_tls"
    by auto
  from conjunct1 [OF conjunct2 [OF conjunct2 [OF t [where conn = "open_connection example_priv" and w = "peer []"]]]] p
  have "p_server p = ''localhost''" "p_port p = Some ''16514''"
    by (auto simp: pt)
  with a p show ?thesis by blast
qed

section \<open>Parsing what \<open>query_create\<close> wrote\<close>

lemma cstr_no_NUL: "NUL \<notin> set (cstr bs)"
  by (auto simp: cstr_def dest: set_takeWhileD)

lemma cstr_id: "NUL \<notin> set s \<Longrightarrow> cstr s = s"
  by (simp add: cstr_def takeWhile_notin)

lemma query_section_fields:
  "f \<in> set (query_section q) \<Longrightarrow>
   NUL \<notin> set (name f) \<and> NUL \<notin> set (value f) \<and> \<not> ignore f"
  by (auto simp: query_section_def Let_def xmlURIUnescapeString_def cstr_no_NUL
           split: if_splits option.splits)

lemma query_parse_loop_fields:
  "f \<in> set (query_parse_loop q flds) \<Longrightarrow>
   f \<in> set flds \<or> (NUL \<notin> set (name f) \<and> NUL \<notin> set (value f) \<and> \<not> ignore f)"
proof (induction q flds rule: query_parse_loop.induct)
  case (1 q flds)
  show ?case
  proof (cases "q = []")
    case True
    with "1.prems" show ?thesis by (simp add: query_parse_loop_Nil)
  next
    case False
    with "1.prems" have "f \<in> set (query_parse_loop (query_next q) (flds @ query_section q))"
      by (subst (asm) query_parse_loop.simps) simp
    from "1.IH" [OF False this] show ?thesis
      by (auto dest: query_section_fields)
  qed
qed

lemma query_parse_fields:
  "f \<in> set (query_parse q) \<Longrightarrow>
   NUL \<notin> set (name f) \<and> NUL \<notin> set (value f) \<and> \<not> ignore f"
  by (auto simp: query_parse_def dest: query_parse_loop_fields split: option.splits if_splits)

lemma extract_vars_marks:
  "\<forall>f \<in> set fs. NUL \<notin> set (name f) \<Longrightarrow>
   fst (extract_vars fs v) =
     map (\<lambda>f. if reserved_key (name f) then f\<lparr>ignore := True\<rparr> else f) fs"
proof (induction fs arbitrary: v)
  case Nil
  then show ?case by simp
next
  case (Cons f fs)
  then have n: "NUL \<notin> set (name f)" by simp
  obtain f' v' where e: "extract_var f v = (f', v')" by (cases "extract_var f v")
  then have f': "f' = (if reserved_key (name f) then f\<lparr>ignore := True\<rparr> else f)"
    using extract_var_lowercase [OF n, of v]
    by (auto simp: reserved_key_def split: if_splits)
  show ?case using Cons e f' by (simp add: split_beta)
qed

lemma join_amp_Cons: "join_amp (s # ss) = s @ concat (map (\<lambda>t. CHR ''&'' # t) ss)"
  by (induction ss arbitrary: s) simp_all

lemma query_create_loop_sep:
  "query_create_loop flds True buf =
     buf @ concat (map (\<lambda>f. CHR ''&'' # field_text f) (filter (\<lambda>f. \<not> ignore f) flds))"
  by (induction flds arbitrary: buf) (simp_all add: field_text_def)

lemma query_create_loop_join:
  "query_create_loop flds False [] = join_amp (map field_text (filter (\<lambda>f. \<not> ignore f) flds))"
proof (induction flds)
  case Nil
  then show ?case by simp
next
  case (Cons f flds)
  show ?case
  proof (cases "ignore f")
    case True
    with Cons show ?thesis by simp
  next
    case False
    then have "query_create_loop (f # flds) False [] = query_create_loop flds True (field_text f)"
      by (simp add: field_text_def)
    then show ?thesis using False
      by (simp add: query_create_loop_sep join_amp_Cons comp_def)
  qed
qed

lemma sections_join_amp:
  "S \<noteq> [] \<Longrightarrow> \<forall>s \<in> set S. CHR ''&'' \<notin> set s \<Longrightarrow> sections (join_amp S) = S"
proof (induction S rule: join_amp.induct)
  case 1
  then show ?case by simp
next
  case (2 s)
  then show ?case by (simp add: sections_single)
next
  case (3 s t ss)
  then show ?case by (simp add: sections_append)
qed

lemma query_parse_join_amp:
  assumes "\<forall>s \<in> set S. CHR ''&'' \<notin> set s" and "''='' \<notin> set S"
  shows "query_parse (Some (join_amp S)) = concat (map section_field S)"
proof (cases "S = []")
  case True
  then show ?thesis by (simp add: query_parse_def)
next
  case False
  with assms have "sections (join_amp S) = S" by (simp add: sections_join_amp)
  with assms(2) show ?thesis by (simp add: query_parse_sections)
qed

subsection \<open>Escaping and unescaping\<close>

lemma hex_digit_props:
  assumes "v < 16"
  shows "is_hex (hex_digit v)" and "hex_value (hex_digit v) = v"
    and "hex_digit v \<noteq> CHR ''&''" and "hex_digit v \<noteq> CHR ''=''"
proof -
  have o: "(of_char (hex_digit v) :: nat) = (if v \<le> 9 then 48 + v else 55 + v)"
    using assms by (simp add: hex_digit_def)
  show "is_hex (hex_digit v)" using assms by (simp add: is_hex_def o)
  show "hex_value (hex_digit v) = v" using assms by (simp add: hex_value_def o)
  have "(of_char (hex_digit v) :: nat) \<noteq> of_char (CHR ''&'')"
    "(of_char (hex_digit v) :: nat) \<noteq> of_char (CHR ''='')"
    using assms by (simp_all add: o)
  then show "hex_digit v \<noteq> CHR ''&''" "hex_digit v \<noteq> CHR ''=''" by auto
qed

lemma unreserved_not_special:
  assumes "IS_UNRESERVED c \<or> c = CHR ''@''"
  shows "c \<noteq> CHR ''&''" and "c \<noteq> CHR ''=''" and "c \<noteq> CHR ''%''"
  using assms by (auto simp: IS_UNRESERVED_def IS_ALPHANUM_def IS_MARK_def)

lemma escape_chars:
  "c \<in> set (xmlURIEscapeStr s []) \<Longrightarrow> c \<noteq> CHR ''&'' \<and> c \<noteq> CHR ''=''"
proof (induction s)
  case Nil
  then show ?case by simp
next
  case (Cons ch s)
  have d: "(of_char ch :: nat) div 16 < 16" "(of_char ch :: nat) mod 16 < 16"
    using nat_of_char_less_256 [of ch] less_mult_imp_div_less [of "of_char ch" 16 16]
    by simp_all
  from Cons show ?case
    using hex_digit_props(3,4) [OF d(1)] hex_digit_props(3,4) [OF d(2)]
      unreserved_not_special(1,2) [of ch]
    by (auto split: if_splits)
qed

lemma escape_Nil_iff: "xmlURIEscapeStr s [] = [] \<longleftrightarrow> s = []"
  by (cases s) simp_all

lemma unescape_bytes_plain:
  "c \<noteq> CHR ''%'' \<Longrightarrow> unescape_bytes (c # xs) = c # unescape_bytes xs"
  by (cases xs rule: unescape_bytes.cases) simp_all

lemma unescape_escape: "unescape_bytes (xmlURIEscapeStr s []) = s"
proof (induction s)
  case Nil
  then show ?case by simp
next
  case (Cons ch s)
  define n where "n = (of_char ch :: nat)"
  have d: "n div 16 < 16" "n mod 16 < 16"
    using nat_of_char_less_256 [of ch] less_mult_imp_div_less [of "of_char ch" 16 16]
    by (simp_all add: n_def)
  show ?case
  proof (cases "ch \<noteq> CHR ''@'' \<and> \<not> IS_UNRESERVED ch")
    case True
    have "char_of (n div 16 * 16 + n mod 16) = ch" by (simp add: n_def)
    then show ?thesis
      using True Cons hex_digit_props(1,2) [OF d(1)] hex_digit_props(1,2) [OF d(2)]
      by (simp add: n_def)
  next
    case False
    then have "ch \<noteq> CHR ''%''" using unreserved_not_special(3) [of ch] by auto
    with False Cons show ?thesis by (auto simp: unescape_bytes_plain)
  qed
qed

lemma unesc_escape: "NUL \<notin> set s \<Longrightarrow> unesc (xmlURIEscapeStr s []) = s"
  by (simp add: unesc_def unescape_escape cstr_id)

lemma section_field_field_text:
  assumes "name f \<noteq> []" and "NUL \<notin> set (name f)" and "NUL \<notin> set (value f)"
    and "\<not> ignore f"
  shows "section_field (field_text f) = [f]"
proof -
  let ?n = "xmlURIEscapeStr (name f) []"
  let ?v = "xmlURIEscapeStr (value f) []"
  have ne: "?n \<noteq> []" using assms(1) by (simp add: escape_Nil_iff)
  have ch: "CHR ''='' \<notin> set ?n" using escape_chars [of "CHR ''=''" "name f"] by auto
  have hd: "hd (?n @ CHR ''='' # ?v) \<noteq> CHR ''=''"
    using ne ch by (cases ?n) auto
  have tw: "takeWhile (\<lambda>c. c \<noteq> CHR ''='') (?n @ CHR ''='' # ?v) = ?n"
    using ch by (simp add: takeWhile_append takeWhile_notin)
  have dw: "dropWhile (\<lambda>c. c \<noteq> CHR ''='') (?n @ CHR ''='' # ?v) = CHR ''='' # ?v"
    using ch by (simp add: dropWhile_append dropWhile_notin)
  show ?thesis
    using assms ne hd
    by (simp add: section_field_def field_text_def tw dw unesc_escape)
qed

lemma field_text_props:
  assumes "name f \<noteq> []"
  shows "CHR ''&'' \<notin> set (field_text f)" and "field_text f \<noteq> ''=''"
proof -
  show "CHR ''&'' \<notin> set (field_text f)"
    using escape_chars [of "CHR ''&''" "name f"] escape_chars [of "CHR ''&''" "value f"]
    by (auto simp: field_text_def)
  have "xmlURIEscapeStr (name f) [] \<noteq> []" using assms by (simp add: escape_Nil_iff)
  then show "field_text f \<noteq> ''=''"
    using escape_chars [of "CHR ''=''" "name f"]
    by (cases "xmlURIEscapeStr (name f) []") (auto simp: field_text_def)
qed

lemma query_parse_created:
  assumes "\<forall>f \<in> set L. name f \<noteq> [] \<and> NUL \<notin> set (name f) \<and> NUL \<notin> set (value f) \<and> \<not> ignore f"
  shows "query_parse (Some (join_amp (map field_text L))) = L"
proof -
  have a: "\<forall>s \<in> set (map field_text L). CHR ''&'' \<notin> set s"
    using assms field_text_props(1) by auto
  have b: "''='' \<notin> set (map field_text L)"
  proof
    assume "''='' \<in> set (map field_text L)"
    then obtain f where "f \<in> set L" "field_text f = ''=''" by auto
    with assms field_text_props(2) show False by blast
  qed
  have "query_parse (Some (join_amp (map field_text L))) =
        concat (map section_field (map field_text L))"
    using a b by (rule query_parse_join_amp)
  also have "\<dots> = concat (map (\<lambda>f. [f]) L)"
    using assms by (simp add: comp_def section_field_field_text cong: map_cong)
  also have "\<dots> = L" by (induction L) simp_all
  finally show ?thesis .
qed

lemma filter_marked:
  "\<forall>f \<in> set fs. \<not> ignore f \<Longrightarrow>
   filter (\<lambda>f. \<not> ignore f)
     (map (\<lambda>f. if reserved_key (name f) then f\<lparr>ignore := True\<rparr> else f) fs) =
   filter (\<lambda>f. \<not> reserved_key (name f)) fs"
  by (induction fs) simp_all

text \<open>
  C6 as stated fails: in \<open>%00=b\<close> the name decodes to a NUL byte, so the parsed field has
  the empty name and the value \<open>b\<close>; it is not reserved and \<open>query_create\<close> writes it as
  \<open>=b\<close>, a query string in which \<open>query_parse\<close> finds no parameter.
\<close>

theorem query_round_trip_counterexample:
  "query_parse (Some ''%00=b'') = [\<lparr>name = [], value = ''b'', ignore = False\<rparr>]
   \<and> \<not> reserved_key []
   \<and> query_create (fst (extract_vars (query_parse (Some ''%00=b''))
        \<lparr>o_name = None, o_command = None, o_sockname = None, o_netcat = None,
         o_no_verify = 0\<rparr>)) = Some ''=b''
   \<and> query_parse (Some ''=b'') = []"
proof -
  have p: "query_parse (Some ''%00=b'') = [\<lparr>name = [], value = ''b'', ignore = False\<rparr>]"
  proof -
    have "query_parse (Some ''%00=b'') = concat (map section_field (sections ''%00=b''))"
      by (rule query_parse_sections) simp
    then show ?thesis
      by (simp add: section_field_def unesc_def cstr_def NUL_def is_hex_def hex_value_def
            char_of_def)
  qed
  have q: "query_parse (Some ''=b'') = []"
  proof -
    have "query_parse (Some ''=b'') = concat (map section_field (sections ''=b''))"
      by (rule query_parse_sections) simp
    then show ?thesis by (simp add: section_field_def)
  qed
  have r: "\<not> reserved_key []" by (simp add: reserved_key_def lowercase_def)
  show ?thesis
    unfolding p using q r
    by (simp add: extract_var_def query_create_def c_tolower_def IS_UNRESERVED_def
          IS_ALPHANUM_def)
qed

text \<open>
  C6, amended: for every query string in which no parsed field has an empty name,
  parsing it, marking the reserved keys ignored and re-serialising with \<open>query_create\<close>
  yields a query string that \<open>query_parse\<close> reads back as exactly the fields whose
  name is not a reserved key, each with its name and value and in the original order.
\<close>

theorem query_round_trip:
  assumes "\<forall>f \<in> set (query_parse q). name f \<noteq> []"
  shows "query_parse (query_create (fst (extract_vars (query_parse q) v))) =
         filter (\<lambda>f. \<not> reserved_key (name f)) (query_parse q)"
proof -
  define fs where "fs = query_parse q"
  define L where "L = filter (\<lambda>f. \<not> reserved_key (name f)) fs"
  have F: "\<forall>f \<in> set fs. NUL \<notin> set (name f) \<and> NUL \<notin> set (value f) \<and> \<not> ignore f"
    unfolding fs_def by (blast dest: query_parse_fields)
  have vs: "fst (extract_vars fs v) =
            map (\<lambda>f. if reserved_key (name f) then f\<lparr>ignore := True\<rparr> else f) fs"
    using F by (intro extract_vars_marks) blast
  have flt: "filter (\<lambda>f. \<not> ignore f) (fst (extract_vars fs v)) = L"
    unfolding vs L_def using F by (intro filter_marked) blast
  have LP: "\<forall>f \<in> set L. name f \<noteq> [] \<and> NUL \<notin> set (name f) \<and> NUL \<notin> set (value f) \<and> \<not> ignore f"
    using F assms by (auto simp: L_def fs_def)
  show ?thesis
  proof (cases "fs = []")
    case True
    have "query_parse None = []" by (simp add: query_parse_def)
    with True show ?thesis
      unfolding fs_def by (simp add: query_create_def)
  next
    case False
    then have "fst (extract_vars fs v) \<noteq> []" by (simp add: vs)
    then have "query_create (fst (extract_vars fs v)) = Some (join_amp (map field_text L))"
      by (simp add: query_create_def query_create_loop_join flt)
    then show ?thesis
      using query_parse_created [OF LP] unfolding fs_def L_def by simp
  qed
qed

theorem query_round_trip_witness:
  "map name (query_parse (Some ''a=1&NAME=x&b=%26&&c'')) = [''a'', ''NAME'', ''b'', ''c'']
   \<and> query_parse (query_create (fst (extract_vars (query_parse (Some ''a=1&NAME=x&b=%26&&c''))
        \<lparr>o_name = None, o_command = None, o_sockname = None, o_netcat = None,
         o_no_verify = 0\<rparr>))) =
      [\<lparr>name = ''a'', value = ''1'', ignore = False\<rparr>,
       \<lparr>name = ''b'', value = ''&'', ignore = False\<rparr>,
       \<lparr>name = ''c'', value = [], ignore = False\<rparr>]"
proof -
  have p: "query_parse (Some ''a=1&NAME=x&b=%26&&c'') =
           [\<lparr>name = ''a'', value = ''1'', ignore = False\<rparr>,
            \<lparr>name = ''NAME'', value = ''x'', ignore = False\<rparr>,
            \<lparr>name = ''b'', value = ''&'', ignore = False\<rparr>,
            \<lparr>name = ''c'', value = [], ignore = False\<rparr>]"
  proof -
    have "query_parse (Some ''a=1&NAME=x&b=%26&&c'') =
          concat (map section_field (sections ''a=1&NAME=x&b=%26&&c''))"
      by (rule query_parse_sections) simp
    then show ?thesis
      by (simp add: section_field_def unesc_def cstr_def NUL_def is_hex_def hex_value_def
            char_of_def bit_Suc_0_iff)
  qed
  have h: "\<forall>f \<in> set (query_parse (Some ''a=1&NAME=x&b=%26&&c'')). name f \<noteq> []"
    by (simp add: p)
  have r: "\<not> reserved_key ''a''" "reserved_key ''NAME''" "\<not> reserved_key ''b''"
    "\<not> reserved_key ''c''"
    by (simp_all add: reserved_key_def lowercase_def c_tolower_def char_of_def bit_Suc_0_iff)
  show ?thesis
    using query_round_trip [OF h,
        of "\<lparr>o_name = None, o_command = None, o_sockname = None, o_netcat = None,
             o_no_verify = 0\<rparr>"] h
    by (simp add: p r)
qed

end
